theory Spec2Isabelle
  imports Main "HOL-Library.Multiset"
begin

section \<open>Data model of the session package\<close>

text \<open>
  Go strings that the program only compares, concatenates or tests for a prefix
  (session ids, paths, command lines) are byte strings: \<open>string\<close>.
  Strings that hold human-readable titles are converted with \<^verbatim>\<open>[]rune(title)\<close> in the
  source; they reach the program from \<^verbatim>\<open>encoding/json\<close>, which yields valid UTF-8, and are
  represented here by their sequence of Unicode code points (\<open>rune list\<close>), so that
  \<^verbatim>\<open>[]rune(title)\<close> and \<^verbatim>\<open>string(runes)\<close> are the identity.
  Go's \<^verbatim>\<open>int\<close> window ids are only compared, never computed with: \<open>int\<close>.
  A \<^verbatim>\<open>time.Time\<close> is an \<open>int\<close>, the zero \<^verbatim>\<open>time.Time{}\<close> being \<open>0\<close>.
\<close>

type_synonym rune = int
type_synonym ustring = "rune list"

datatype Status = StatusIdle | StatusWaiting | StatusRunning

record Session =
  ID :: string
  Name :: ustring
  Renamed :: bool
  ProjectPath :: string
  ClaudeSessionID :: string
  GroupPath :: string
  Order :: int
  Pinned :: bool
  CreatedAt :: int
  LastAccessedAt :: int
  KittyWindowID :: int
  Status :: Status
  JSONLPath :: string
  MessageCount :: int
  Title :: ustring
  GitBranch :: string

text \<open>The zero value of the struct, as a Go composite literal with no fields gives it.\<close>

definition zeroSession :: Session where
  "zeroSession = \<lparr>ID = [], Name = [], Renamed = False, ProjectPath = [],
     ClaudeSessionID = [], GroupPath = [], Order = 0, Pinned = False, CreatedAt = 0,
     LastAccessedAt = 0, KittyWindowID = 0, Status = StatusIdle, JSONLPath = [],
     MessageCount = 0, Title = [], GitBranch = []\<rparr>"

record activeSession =
  windowID :: int
  sessionID :: string
  projectPath :: string
  tabTitle :: ustring
  hasSpinner :: bool

text \<open>The fields of \<^verbatim>\<open>StatusUpdate\<close>, prefixed with \<open>u\<close> to keep them apart from those
  of \<^verbatim>\<open>Session\<close>.\<close>

record StatusUpdate =
  uSessionID :: string
  uStatus :: Status
  uOldStatus :: Status
  uName :: ustring
  uOldName :: ustring
  uKittyWindowID :: int

text \<open>
  A \<^verbatim>\<open>*Session\<close> is an address; the session objects live in a heap. Every address holds a
  session (there is no nil pointer in the model).
\<close>

type_synonym addr = nat
type_synonym heap = "addr \<Rightarrow> Session"

section \<open>Title indicators\<close>

text \<open>\<^verbatim>\<open>unicode.IsSpace\<close> of the Go library: the code points with the White_Space property.\<close>

definition IsSpace :: "rune \<Rightarrow> bool" where
  "IsSpace r = (r = 0x09 \<or> r = 0x0A \<or> r = 0x0B \<or> r = 0x0C \<or> r = 0x0D \<or> r = 0x20
     \<or> r = 0x85 \<or> r = 0xA0 \<or> r = 0x1680 \<or> (0x2000 \<le> r \<and> r \<le> 0x200A)
     \<or> r = 0x2028 \<or> r = 0x2029 \<or> r = 0x202F \<or> r = 0x205F \<or> r = 0x3000)"

text \<open>\<^verbatim>\<open>strings.TrimSpace\<close> of the Go library: all leading and trailing white space removed.\<close>

definition TrimSpace :: "ustring \<Rightarrow> ustring" where
  "TrimSpace s = rev (dropWhile IsSpace (rev (dropWhile IsSpace s)))"

definition hasClaudeIndicator :: "ustring \<Rightarrow> bool" where
  "hasClaudeIndicator title =
     (case title of
        [] \<Rightarrow> False
      | r # _ \<Rightarrow> r = 0x2733 \<or> (r \<ge> 0x2800 \<and> r \<le> 0x283F))"

definition hasSpinnerIndicator :: "ustring \<Rightarrow> bool" where
  "hasSpinnerIndicator title =
     (case title of
        [] \<Rightarrow> False
      | r # _ \<Rightarrow> r \<ge> 0x2800 \<and> r \<le> 0x283F)"

definition cleanClaudeTitle :: "ustring \<Rightarrow> ustring" where
  "cleanClaudeTitle title =
     (if title = [] then []
      else
        (let runes = title;
             title1 =
               (case runes of
                  [] \<Rightarrow> title
                | r # _ \<Rightarrow>
                    if r = 0x2733 \<or> (r \<ge> 0x2800 \<and> r \<le> 0x283F) then drop 1 runes
                    else title)
         in TrimSpace title1))"

section \<open>The window snapshot\<close>

text \<open>
  \<^verbatim>\<open>getKittyActiveSessions\<close> runs \<^verbatim>\<open>kitty @ ls\<close> and decodes its JSON output. The functions
  of the reconciliation take its result, the list of active windows, as the argument
  \<open>activeSessions\<close>. The part of the provider that builds one entry from a decoded
  window is modelled below; \<open>title\<close> is the window's title, or the tab's when the
  window has none.
\<close>

definition HasPrefix :: "string \<Rightarrow> string \<Rightarrow> bool" where
  "HasPrefix s pre = (length s \<ge> length pre \<and> take (length pre) s = pre)"

fun IndexFrom :: "nat \<Rightarrow> string \<Rightarrow> string \<Rightarrow> int" where
  "IndexFrom k [] sub = (if sub = [] then int k else - 1)"
| "IndexFrom k (c # cs) sub =
     (if HasPrefix (c # cs) sub then int k else IndexFrom (Suc k) cs sub)"

definition Index :: "string \<Rightarrow> string \<Rightarrow> int" where
  "Index s sub = IndexFrom 0 s sub"

definition isSessionIDChar :: "char \<Rightarrow> bool" where
  "isSessionIDChar c =
     ((of_char c \<ge> (0x30::nat) \<and> of_char c \<le> (0x39::nat))
      \<or> (of_char c \<ge> (0x61::nat) \<and> of_char c \<le> (0x66::nat))
      \<or> (of_char c \<ge> (0x41::nat) \<and> of_char c \<le> (0x46::nat))
      \<or> c = CHR ''-'')"

definition newActiveSession :: "int \<Rightarrow> string \<Rightarrow> ustring \<Rightarrow> string \<Rightarrow> activeSession" where
  "newActiveSession winID cwd title cmdline =
     (let active = \<lparr>windowID = winID, sessionID = [], projectPath = cwd, tabTitle = title,
                     hasSpinner = hasSpinnerIndicator title\<rparr>;
          idx = Index cmdline ''--resume ''
      in if idx \<noteq> - 1 then
           (let rest = drop (nat (idx + 9)) cmdline;
                sessionID1 = takeWhile isSessionIDChar rest
            in if sessionID1 \<noteq> [] then active\<lparr>sessionID := sessionID1\<rparr> else active)
         else active)"

text \<open>
  The decoded output of \<^verbatim>\<open>kitty @ ls\<close> and the loop of the provider that collects the
  entries of the windows running claude. The provider then reorders the collected list
  with \<^verbatim>\<open>sort.Slice\<close> (entries with a spinner first), which changes no entry.
\<close>

record kittyWindow =
  kwID :: int
  kwTitle :: ustring
  kwCmdline :: "string list"
  kwCwd :: string

record kittyTab =
  ktTitle :: ustring
  ktWindows :: "kittyWindow list"

record kittyOSWindow =
  koTabs :: "kittyTab list"

fun Join :: "string list \<Rightarrow> string \<Rightarrow> string" where
  "Join [] sep = []"
| "Join [x] sep = x"
| "Join (x # y # ys) sep = x @ sep @ Join (y # ys) sep"

definition Contains :: "string \<Rightarrow> string \<Rightarrow> bool" where
  "Contains s sub = (Index s sub \<ge> 0)"

definition windowEntry :: "kittyTab \<Rightarrow> kittyWindow \<Rightarrow> activeSession option" where
  "windowEntry tab win =
     (let cmdline = Join (kwCmdline win) '' '';
          isClaudeTab = (Contains cmdline ''claude'' \<or> hasClaudeIndicator (ktTitle tab)
                         \<or> hasClaudeIndicator (kwTitle win))
      in if \<not> isClaudeTab then None
         else
           (let title = (if kwTitle win = [] then ktTitle tab else kwTitle win)
            in Some (newActiveSession (kwID win) (kwCwd win) title cmdline)))"

definition collectActive :: "kittyOSWindow list \<Rightarrow> activeSession list" where
  "collectActive osWindows =
     concat (map (\<lambda>osWin.
       concat (map (\<lambda>tab. List.map_filter (windowEntry tab) (ktWindows tab)) (koTabs osWin)))
       osWindows)"

section \<open>The session matcher\<close>

text \<open>
  The three loops of \<^verbatim>\<open>detectSessionStatus\<close>, one function each. Each returns the
  window at which the loop sets \<^verbatim>\<open>hasKittyTab\<close>, or \<open>None\<close> when the loop ends (or
  breaks) without a match. \<open>matchedWindows\<close> is a Go \<^verbatim>\<open>map[int]bool\<close>, read with the
  zero value \<open>False\<close> at a missing key.
\<close>

fun matchByWindowID :: "Session \<Rightarrow> activeSession list \<Rightarrow> (int \<Rightarrow> bool) \<Rightarrow> activeSession option" where
  "matchByWindowID s [] matchedWindows = None"
| "matchByWindowID s (active # rest) matchedWindows =
     (if windowID active = KittyWindowID s then
        (if matchedWindows (windowID active) then None
         else if sessionID active \<noteq> [] \<and> sessionID active \<noteq> ClaudeSessionID s then None
         else Some active)
      else matchByWindowID s rest matchedWindows)"

fun matchBySessionID :: "Session \<Rightarrow> activeSession list \<Rightarrow> (int \<Rightarrow> bool) \<Rightarrow> activeSession option" where
  "matchBySessionID s [] matchedWindows = None"
| "matchBySessionID s (active # rest) matchedWindows =
     (if sessionID active \<noteq> [] \<and> sessionID active = ClaudeSessionID s then
        (if matchedWindows (windowID active) then matchBySessionID s rest matchedWindows
         else Some active)
      else matchBySessionID s rest matchedWindows)"

definition pathMatch :: "activeSession \<Rightarrow> Session \<Rightarrow> bool" where
  "pathMatch active s =
     (projectPath active = ProjectPath s
      \<or> HasPrefix (projectPath active) (ProjectPath s @ ''/''))"

fun matchByProjectPath :: "Session \<Rightarrow> activeSession list \<Rightarrow> (int \<Rightarrow> bool) \<Rightarrow> activeSession option" where
  "matchByProjectPath s [] matchedWindows = None"
| "matchByProjectPath s (active # rest) matchedWindows =
     (if sessionID active \<noteq> [] then matchByProjectPath s rest matchedWindows
      else if matchedWindows (windowID active) then matchByProjectPath s rest matchedWindows
      else if \<not> pathMatch active s then matchByProjectPath s rest matchedWindows
      else Some active)"

text \<open>The three tiers with their guards, in the order of the source.\<close>

definition tierStored :: "Session \<Rightarrow> activeSession list \<Rightarrow> (int \<Rightarrow> bool) \<Rightarrow> activeSession option" where
  "tierStored s activeSessions matchedWindows =
     (if KittyWindowID s > 0 then matchByWindowID s activeSessions matchedWindows else None)"

definition tierResume :: "Session \<Rightarrow> activeSession list \<Rightarrow> (int \<Rightarrow> bool) \<Rightarrow> activeSession option" where
  "tierResume s activeSessions matchedWindows = matchBySessionID s activeSessions matchedWindows"

definition tierPath :: "Session \<Rightarrow> activeSession list \<Rightarrow> (int \<Rightarrow> bool) \<Rightarrow> activeSession option" where
  "tierPath s activeSessions matchedWindows =
     (if JSONLPath s \<noteq> [] then matchByProjectPath s activeSessions matchedWindows else None)"

text \<open>The matched window and \<^verbatim>\<open>strongMatch\<close>, as the locals stand at line 481.\<close>

definition matchWindow :: "Session \<Rightarrow> activeSession list \<Rightarrow> (int \<Rightarrow> bool) \<Rightarrow> (activeSession \<times> bool) option" where
  "matchWindow s activeSessions matchedWindows =
     (case tierStored s activeSessions matchedWindows of
        Some active \<Rightarrow> Some (active, True)
      | None \<Rightarrow>
          (case tierResume s activeSessions matchedWindows of
             Some active \<Rightarrow> Some (active, True)
           | None \<Rightarrow>
               (case tierPath s activeSessions matchedWindows of
                  Some active \<Rightarrow> Some (active, False)
                | None \<Rightarrow> None)))"

text \<open>
  \<^verbatim>\<open>detectSessionStatus\<close> gets a pointer to the session; the model passes the heap and
  returns it, together with the updated \<open>matchedWindows\<close>.
\<close>

definition detectSessionStatus ::
  "addr \<Rightarrow> activeSession list \<Rightarrow> (int \<Rightarrow> bool) \<Rightarrow> heap
     \<Rightarrow> (Status \<times> ustring \<times> int \<times> bool) \<times> (int \<Rightarrow> bool) \<times> heap" where
  "detectSessionStatus s activeSessions matchedWindows h =
     (case matchWindow (h s) activeSessions matchedWindows of
        None \<Rightarrow> ((StatusIdle, [], 0, False), matchedWindows, h)
      | Some (active, strongMatch) \<Rightarrow>
          (if hasSpinner active then
             ((StatusRunning, tabTitle active, windowID active, strongMatch),
              matchedWindows(windowID active := True), h)
           else
             ((StatusWaiting, tabTitle active, windowID active, strongMatch),
              matchedWindows(windowID active := True), h)))"

section \<open>The reconciliation pass\<close>

text \<open>
  \<open>stat\<close> is \<^verbatim>\<open>os.Stat\<close>: the modification time of the file at a path, \<open>None\<close> on an
  error. \<open>sortable\<close> holds pairs of a session pointer and its mtime.
\<close>

definition sessionMtime :: "(string \<Rightarrow> int option) \<Rightarrow> Session \<Rightarrow> int" where
  "sessionMtime stat s =
     (if JSONLPath s \<noteq> [] then (case stat (JSONLPath s) of Some t \<Rightarrow> t | None \<Rightarrow> 0) else 0)"

function sortInner :: "nat \<Rightarrow> nat \<Rightarrow> (addr \<times> int) list \<Rightarrow> (addr \<times> int) list" where
  "sortInner i j sortable =
     (if j < length sortable then
        sortInner i (j + 1)
          (if snd (sortable ! j) > snd (sortable ! i)
           then sortable[i := sortable ! j, j := sortable ! i]
           else sortable)
      else sortable)"
  by pat_completeness auto
termination
  by (relation "measure (\<lambda>(i, j, sortable). length sortable - j)") auto

declare sortInner.simps [simp del]

lemma length_sortInner: "length (sortInner i j sortable) = length sortable"
proof (induction i j sortable rule: sortInner.induct)
  case (1 i j sortable)
  show ?case
  proof (cases "j < length sortable")
    case True
    then show ?thesis
      using "1.IH" by (subst sortInner.simps) simp
  next
    case False
    then show ?thesis by (subst sortInner.simps) simp
  qed
qed

function sortOuter :: "nat \<Rightarrow> (addr \<times> int) list \<Rightarrow> (addr \<times> int) list" where
  "sortOuter i sortable =
     (if i + 1 < length sortable then sortOuter (i + 1) (sortInner i (i + 1) sortable)
      else sortable)"
  by pat_completeness auto
termination
  by (relation "measure (\<lambda>(i, sortable). length sortable - i)") (auto simp: length_sortInner)

declare sortOuter.simps [simp del]

text \<open>One iteration of the loop over \<open>sortable\<close> (lines 105 to 144). The loop state is
  \<open>(updates, namesChanged, anyChanged, matchedWindows, heap)\<close>.\<close>

type_synonym loopState = "StatusUpdate list \<times> bool \<times> bool \<times> (int \<Rightarrow> bool) \<times> heap"

definition stepSession :: "bool \<Rightarrow> activeSession list \<Rightarrow> addr \<Rightarrow> loopState \<Rightarrow> loopState" where
  "stepSession aggressive activeSessions sw st =
     (case st of (updates, namesChanged, anyChanged, matchedWindows, h) \<Rightarrow>
      (case detectSessionStatus sw activeSessions matchedWindows h of
         ((status, title, winID, strongMatch), matchedWindows1, h1) \<Rightarrow>
         (let update = \<lparr>uSessionID = ClaudeSessionID (h1 sw), uStatus = status,
                         uOldStatus = Status (h1 sw), uName = [], uOldName = Name (h1 sw),
                         uKittyWindowID = winID\<rparr>;
              anyChanged1 = (if status \<noteq> Status (h1 sw) then True else anyChanged);
              (anyChanged2, update1) =
                (if (strongMatch \<or> aggressive) \<and> winID \<noteq> KittyWindowID (h1 sw)
                 then (True, update)
                 else if \<not> strongMatch \<and> \<not> aggressive
                 then (anyChanged1, update\<lparr>uKittyWindowID := KittyWindowID (h1 sw)\<rparr>)
                 else (anyChanged1, update));
              (namesChanged1, anyChanged3, update2) =
                (if (strongMatch \<or> aggressive) \<and> title \<noteq> [] \<and> \<not> Renamed (h1 sw) then
                   (let cleanTitle = cleanClaudeTitle title
                    in if cleanTitle \<noteq> [] \<and> cleanTitle \<noteq> Name (h1 sw)
                       then (True, True, update1\<lparr>uName := cleanTitle\<rparr>)
                       else (namesChanged, anyChanged2, update1))
                 else (namesChanged, anyChanged2, update1))
          in (updates @ [update2], namesChanged1, anyChanged3, matchedWindows1, h1))))"

definition computeStatusesInternal ::
  "addr list \<Rightarrow> bool \<Rightarrow> activeSession list \<Rightarrow> (string \<Rightarrow> int option) \<Rightarrow> heap
     \<Rightarrow> (StatusUpdate list \<times> (int \<Rightarrow> bool) \<times> bool \<times> bool) \<times> heap" where
  "computeStatusesInternal sessions aggressive activeSessions stat h =
     (let activeWindowIDs = foldl (\<lambda>m as. m(windowID as := True)) (\<lambda>_. False) activeSessions;
          sortable = map (\<lambda>s. (s, sessionMtime stat (h s))) sessions;
          sorted = sortOuter 0 sortable
      in case foldl (\<lambda>st sw. stepSession aggressive activeSessions (fst sw) st)
                ([], False, False, (\<lambda>_. False), h) sorted of
           (updates, namesChanged, anyChanged, matchedWindows, h1) \<Rightarrow>
             ((updates, activeWindowIDs, namesChanged, anyChanged), h1))"

definition ComputeStatuses ::
  "addr list \<Rightarrow> activeSession list \<Rightarrow> (string \<Rightarrow> int option) \<Rightarrow> heap
     \<Rightarrow> (StatusUpdate list \<times> (int \<Rightarrow> bool) \<times> bool \<times> bool) \<times> heap" where
  "ComputeStatuses sessions activeSessions stat h =
     computeStatusesInternal sessions False activeSessions stat h"

definition ComputeStatusesAggressive ::
  "addr list \<Rightarrow> activeSession list \<Rightarrow> (string \<Rightarrow> int option) \<Rightarrow> heap
     \<Rightarrow> (StatusUpdate list \<times> (int \<Rightarrow> bool) \<times> bool \<times> bool) \<times> heap" where
  "ComputeStatusesAggressive sessions activeSessions stat h =
     computeStatusesInternal sessions True activeSessions stat h"

section \<open>Applying updates and claiming a window\<close>

definition buildUpdateMap :: "StatusUpdate list \<Rightarrow> (string \<rightharpoonup> StatusUpdate)" where
  "buildUpdateMap updates = foldl (\<lambda>m u. m(uSessionID u \<mapsto> u)) Map.empty updates"

definition buildClaimedWindows :: "StatusUpdate list \<Rightarrow> (int \<rightharpoonup> string)" where
  "buildClaimedWindows updates =
     foldl (\<lambda>m u. if uKittyWindowID u > 0 then m(uKittyWindowID u \<mapsto> uSessionID u) else m)
       Map.empty updates"

text \<open>One iteration of the loop over \<open>sessions\<close> in \<^verbatim>\<open>ApplyStatusUpdates\<close>; the state is
  \<open>(changed, needsSave, heap)\<close>.\<close>

definition applyToSession ::
  "(string \<rightharpoonup> StatusUpdate) \<Rightarrow> (int \<rightharpoonup> string) \<Rightarrow> addr \<Rightarrow> bool \<times> bool \<times> heap
     \<Rightarrow> bool \<times> bool \<times> heap" where
  "applyToSession updateMap claimedWindows s st =
     (case st of (changed, needsSave, h) \<Rightarrow>
      (case updateMap (ClaudeSessionID (h s)) of
         Some u \<Rightarrow>
           (let (changed1, h1) =
                  (if Status (h s) \<noteq> uStatus u
                   then (True, h(s := (h s)\<lparr>Status := uStatus u\<rparr>))
                   else (changed, h));
                (changed2, needsSave2, h2) =
                  (if uName u \<noteq> [] \<and> Name (h1 s) \<noteq> uName u
                   then (True, True, h1(s := (h1 s)\<lparr>Name := uName u\<rparr>))
                   else (changed1, needsSave, h1))
            in if uKittyWindowID u \<noteq> KittyWindowID (h2 s)
               then (True, True, h2(s := (h2 s)\<lparr>KittyWindowID := uKittyWindowID u\<rparr>))
               else (changed2, needsSave2, h2))
       | None \<Rightarrow>
           (if KittyWindowID (h s) > 0 then
              (case claimedWindows (KittyWindowID (h s)) of
                 Some claimer \<Rightarrow>
                   if claimer \<noteq> ClaudeSessionID (h s)
                   then (True, True, h(s := (h s)\<lparr>KittyWindowID := 0\<rparr>))
                   else (changed, needsSave, h)
               | None \<Rightarrow> (changed, needsSave, h))
            else (changed, needsSave, h))))"

definition ApplyStatusUpdates :: "addr list \<Rightarrow> StatusUpdate list \<Rightarrow> heap \<Rightarrow> (bool \<times> bool) \<times> heap" where
  "ApplyStatusUpdates sessions updates h =
     (let updateMap = buildUpdateMap updates;
          claimedWindows = buildClaimedWindows updates
      in case foldl (\<lambda>st s. applyToSession updateMap claimedWindows s st) (False, False, h) sessions of
           (changed, needsSave, h1) \<Rightarrow> ((changed, needsSave), h1))"

definition RefreshStatuses ::
  "addr list \<Rightarrow> activeSession list \<Rightarrow> (string \<Rightarrow> int option) \<Rightarrow> heap \<Rightarrow> bool \<times> heap" where
  "RefreshStatuses sessions activeSessions stat h =
     (case ComputeStatuses sessions activeSessions stat h of
        ((updates, activeWindowIDs, namesChanged, anyChanged), h1) \<Rightarrow>
          (case ApplyStatusUpdates sessions updates h1 of
             ((changed, needsSave), h2) \<Rightarrow> (needsSave, h2)))"

text \<open>One iteration of the loop over \<open>sessions\<close> in \<^verbatim>\<open>ClaimWindowID\<close>; the state is
  \<open>(modified, heap)\<close>. Sessions are compared as pointers.\<close>

definition claimStep :: "addr \<Rightarrow> int \<Rightarrow> bool \<times> heap \<Rightarrow> addr \<Rightarrow> bool \<times> heap" where
  "claimStep claimingSession winID =
     (\<lambda>(modified, h0) s.
        if s = claimingSession then (modified, h0)
        else if KittyWindowID (h0 s) = winID
        then (True, h0(s := (h0 s)\<lparr>KittyWindowID := 0\<rparr>))
        else (modified, h0))"

definition ClaimWindowID :: "addr list \<Rightarrow> addr \<Rightarrow> int \<Rightarrow> heap \<Rightarrow> bool \<times> heap" where
  "ClaimWindowID sessions claimingSession winID h =
     (if winID \<le> 0 then (False, h)
      else
        (case foldl (claimStep claimingSession winID) (False, h) sessions of
           (modified, h1) \<Rightarrow>
             (modified, h1(claimingSession := (h1 claimingSession)\<lparr>KittyWindowID := winID\<rparr>))))"

section \<open>Reading a pass\<close>

text \<open>
  Notions used to state properties of a pass; they add nothing to the program.
  \<open>loopUpdate\<close> is the \<^verbatim>\<open>StatusUpdate\<close> that one iteration of the loop appends, as a
  function of the session and of the matcher's result. \<open>processingOrder\<close> is the order in
  which the loop visits the sessions, \<open>claimedBefore \<dots> i\<close> the contents of
  \<open>matchedWindows\<close> when the loop reaches its \<open>i\<close>-th session, \<open>matchAt \<dots> i\<close> the
  window matched there and \<open>matcherResult \<dots> i\<close> what \<^verbatim>\<open>detectSessionStatus\<close> returns there.
\<close>

definition loopUpdate :: "bool \<Rightarrow> Session \<Rightarrow> Status \<times> ustring \<times> int \<times> bool \<Rightarrow> StatusUpdate" where
  "loopUpdate aggressive s r =
     (case r of (status, title, winID, strongMatch) \<Rightarrow>
        \<lparr>uSessionID = ClaudeSessionID s, uStatus = status, uOldStatus = Status s,
         uName = (if (strongMatch \<or> aggressive) \<and> title \<noteq> [] \<and> \<not> Renamed s
                      \<and> cleanClaudeTitle title \<noteq> [] \<and> cleanClaudeTitle title \<noteq> Name s
                  then cleanClaudeTitle title else []),
         uOldName = Name s,
         uKittyWindowID = (if strongMatch \<or> aggressive then winID else KittyWindowID s)\<rparr>)"

definition claimedAfter :: "activeSession list \<Rightarrow> heap \<Rightarrow> addr list \<Rightarrow> (int \<Rightarrow> bool) \<Rightarrow> (int \<Rightarrow> bool)" where
  "claimedAfter activeSessions h ps m =
     foldl (\<lambda>m p. fst (snd (detectSessionStatus p activeSessions m h))) m ps"

definition processingOrder :: "addr list \<Rightarrow> (string \<Rightarrow> int option) \<Rightarrow> heap \<Rightarrow> addr list" where
  "processingOrder sessions stat h =
     map fst (sortOuter 0 (map (\<lambda>s. (s, sessionMtime stat (h s))) sessions))"

definition claimedBefore :: "activeSession list \<Rightarrow> heap \<Rightarrow> addr list \<Rightarrow> nat \<Rightarrow> (int \<Rightarrow> bool)" where
  "claimedBefore activeSessions h order i = claimedAfter activeSessions h (take i order) (\<lambda>_. False)"

definition matchAt :: "activeSession list \<Rightarrow> heap \<Rightarrow> addr list \<Rightarrow> nat \<Rightarrow> (activeSession \<times> bool) option" where
  "matchAt activeSessions h order i =
     matchWindow (h (order ! i)) activeSessions (claimedBefore activeSessions h order i)"

definition matcherResult :: "activeSession list \<Rightarrow> heap \<Rightarrow> addr list \<Rightarrow> nat \<Rightarrow> Status \<times> ustring \<times> int \<times> bool" where
  "matcherResult activeSessions h order i =
     fst (detectSessionStatus (order ! i) activeSessions (claimedBefore activeSessions h order i) h)"

definition rStatus :: "Status \<times> ustring \<times> int \<times> bool \<Rightarrow> Status" where "rStatus r = fst r"
definition rTitle :: "Status \<times> ustring \<times> int \<times> bool \<Rightarrow> ustring" where "rTitle r = fst (snd r)"
definition rWindowID :: "Status \<times> ustring \<times> int \<times> bool \<Rightarrow> int" where "rWindowID r = fst (snd (snd r))"
definition rStrong :: "Status \<times> ustring \<times> int \<times> bool \<Rightarrow> bool" where "rStrong r = snd (snd (snd r))"

section \<open>Example data\<close>

text \<open>
  Window 7 runs \<^verbatim>\<open>claude --resume bb\<close> and shows a spinner; window 8 has no explicit
  session id and stands in a subdirectory of \<^verbatim>\<open>/p\<close>. Session 0 (id \<open>aa\<close>, project
  \<^verbatim>\<open>/p\<close>) still stores window 7; every other session is \<open>bb\<close>.
\<close>

definition exWin7 :: activeSession where
  "exWin7 = \<lparr>windowID = 7, sessionID = ''bb'', projectPath = ''/p'',
             tabTitle = [0x2802, 0x20, 0x62], hasSpinner = True\<rparr>"

definition exWin8 :: activeSession where
  "exWin8 = \<lparr>windowID = 8, sessionID = [], projectPath = ''/p/sub'',
             tabTitle = [0x69], hasSpinner = False\<rparr>"

text \<open>The decoded output of kitty from which the provider builds these two entries; its
  third window runs no claude.\<close>

definition exKitty :: "kittyOSWindow list" where
  "exKitty =
     [\<lparr>koTabs =
        [\<lparr>ktTitle = [0x74],
          ktWindows =
            [\<lparr>kwID = 7, kwTitle = [0x2802, 0x20, 0x62],
              kwCmdline = [''claude'', ''--resume'', ''bb''], kwCwd = ''/p''\<rparr>,
             \<lparr>kwID = 8, kwTitle = [0x69], kwCmdline = [''claude''], kwCwd = ''/p/sub''\<rparr>,
             \<lparr>kwID = 9, kwTitle = [0x76], kwCmdline = [''vim''], kwCwd = ''/p''\<rparr>]\<rparr>]\<rparr>]"

definition exHeap :: heap where
  "exHeap = (\<lambda>a. if a = 0 then zeroSession\<lparr>ClaudeSessionID := ''aa'', ProjectPath := ''/p'',
                                   JSONLPath := ''/t/aa.jsonl'', KittyWindowID := 7\<rparr>
                  else zeroSession\<lparr>ClaudeSessionID := ''bb'', ProjectPath := ''/q''\<rparr>)"

definition exHeap8 :: heap where
  "exHeap8 = exHeap(0 := (exHeap 0)\<lparr>KittyWindowID := 8\<rparr>)"

definition exHeapNoTranscript :: heap where
  "exHeapNoTranscript = exHeap(0 := (exHeap 0)\<lparr>JSONLPath := []\<rparr>)"

text \<open>Session A holds window 42 (respectively 5); session B claims it.\<close>

definition exHeap42 :: heap where
  "exHeap42 = (\<lambda>a. if a = 0 then zeroSession\<lparr>ID := ''A'', KittyWindowID := 42\<rparr>
                    else zeroSession\<lparr>ID := ''B''\<rparr>)"

definition exUpdateB :: StatusUpdate where
  "exUpdateB = \<lparr>uSessionID = ''B'', uStatus = StatusRunning, uOldStatus = StatusIdle, uName = [],
                uOldName = [], uKittyWindowID = 5\<rparr>"

definition exHeap5 :: heap where
  "exHeap5 = (\<lambda>a. if a = 0 then zeroSession\<lparr>ClaudeSessionID := ''A'', KittyWindowID := 5\<rparr>
                   else zeroSession\<lparr>ClaudeSessionID := ''B''\<rparr>)"

text \<open>Two sessions with the same Claude session id: the first is renamed by the user
  (name \<open>M\<close>), the second stores window 8.\<close>

definition exHeapShared :: heap where
  "exHeapShared =
     (\<lambda>a. if a = 0
          then zeroSession\<lparr>ClaudeSessionID := ''ab'', Name := [0x4D], Renamed := True,
                            ProjectPath := ''/r'', JSONLPath := ''/t/r/ab.jsonl''\<rparr>
          else zeroSession\<lparr>ClaudeSessionID := ''ab'', ProjectPath := ''/q'',
                            JSONLPath := ''/t/q/ab.jsonl'', KittyWindowID := 8\<rparr>)"

text \<open>The transcript of the first of them is the more recent one.\<close>

definition exStat :: "string \<Rightarrow> int option" where
  "exStat path = (if path = ''/t/r/ab.jsonl'' then Some 20 else Some 10)"

lemmas ex_defs = exWin7_def exWin8_def exHeap_def zeroSession_def
lemmas pass_defs = ComputeStatuses_def ComputeStatusesAggressive_def computeStatusesInternal_def
  sortOuter.simps sortInner.simps sessionMtime_def stepSession_def detectSessionStatus_def
  matchWindow_def tierStored_def tierResume_def tierPath_def pathMatch_def HasPrefix_def Let_def
  cleanClaudeTitle_def TrimSpace_def IsSpace_def
lemmas trace_defs = matcherResult_def claimedBefore_def claimedAfter_def processingOrder_def
  matchAt_def rStatus_def rTitle_def rWindowID_def rStrong_def

section \<open>Facts about the matcher and the loop\<close>

lemma result_split:
  "x = ((fst (fst x), fst (snd (fst x)), fst (snd (snd (fst x))), snd (snd (snd (fst x)))), snd x)"
  by simp

lemma matchByWindowID_Some:
  "matchByWindowID s ws m = Some a \<Longrightarrow> a \<in> set ws \<and> \<not> m (windowID a) \<and> windowID a = KittyWindowID s"
  by (induction ws) (auto split: if_splits)

lemma matchBySessionID_find:
  "matchBySessionID s ws m =
     find (\<lambda>a. sessionID a \<noteq> [] \<and> sessionID a = ClaudeSessionID s \<and> \<not> m (windowID a)) ws"
  by (induction ws) auto

lemma matchByProjectPath_find:
  "matchByProjectPath s ws m =
     find (\<lambda>a. sessionID a = [] \<and> \<not> m (windowID a) \<and> pathMatch a s) ws"
  by (induction ws) auto

lemma matchByWindowID_find:
  "matchByWindowID s ws m =
     (case find (\<lambda>a. windowID a = KittyWindowID s) ws of
        None \<Rightarrow> None
      | Some a \<Rightarrow>
          if m (windowID a) then None
          else if sessionID a \<noteq> [] \<and> sessionID a \<noteq> ClaudeSessionID s then None
          else Some a)"
  by (induction ws) auto

lemma find_Some_mem: "find P xs = Some x \<Longrightarrow> x \<in> set xs \<and> P x"
  by (induction xs) (auto split: if_splits)

lemma matchWindow_Some:
  assumes "matchWindow s ws m = Some (a, strong)"
  shows "a \<in> set ws \<and> \<not> m (windowID a)"
proof -
  from assms consider
      "tierStored s ws m = Some a"
    | "tierResume s ws m = Some a"
    | "tierPath s ws m = Some a"
    by (auto simp: matchWindow_def split: option.splits)
  then show ?thesis
  proof cases
    case 1
    then show ?thesis
      using matchByWindowID_Some [of s ws m a] by (auto simp: tierStored_def split: if_splits)
  next
    case 2
    then show ?thesis
      using find_Some_mem by (fastforce simp: tierResume_def matchBySessionID_find)
  next
    case 3
    then show ?thesis
      using find_Some_mem by (fastforce simp: tierPath_def matchByProjectPath_find split: if_splits)
  qed
qed

lemma detect_cases:
  "detectSessionStatus p ws m h =
     (case matchWindow (h p) ws m of
        None \<Rightarrow> ((StatusIdle, [], 0, False), m, h)
      | Some (a, strong) \<Rightarrow>
          ((if hasSpinner a then StatusRunning else StatusWaiting, tabTitle a, windowID a, strong),
           m(windowID a := True), h))"
  by (simp add: detectSessionStatus_def split: option.splits)

lemma detect_heap: "snd (snd (detectSessionStatus p ws m h)) = h"
  by (simp add: detect_cases split: option.splits)

lemma detect_claimed_mono: "m w \<Longrightarrow> fst (snd (detectSessionStatus p ws m h)) w"
  by (simp add: detect_cases split: option.splits)

lemma stepSession_eq:
  "stepSession aggressive ws p (us, nc, ac, m, h) =
     (us @ [loopUpdate aggressive (h p) (fst (detectSessionStatus p ws m h))],
      fst (snd (stepSession aggressive ws p (us, nc, ac, m, h))),
      fst (snd (snd (stepSession aggressive ws p (us, nc, ac, m, h)))),
      fst (snd (detectSessionStatus p ws m h)), h)"
proof -
  obtain status title winID strong m1 h1 where
    d: "detectSessionStatus p ws m h = ((status, title, winID, strong), m1, h1)"
    by (metis prod_cases3 prod_cases4)
  have h1: "h1 = h" using detect_heap [of p ws m h] d by simp
  show ?thesis
    by (simp add: stepSession_def d h1 loopUpdate_def Let_def)
qed


lemma claimedAfter_snoc:
  "claimedAfter ws h (ps @ [p]) m = fst (snd (detectSessionStatus p ws (claimedAfter ws h ps m) h))"
  by (simp add: claimedAfter_def)

lemma claimedAfter_mono: "m w \<Longrightarrow> claimedAfter ws h ps m w"
  by (induction ps rule: rev_induct) (simp_all add: claimedAfter_def detect_claimed_mono)

lemma loop_unroll:
  "foldl (\<lambda>st p. stepSession aggressive ws p st) ([], False, False, m0, h) ps = (us, nc, ac, m, h') \<Longrightarrow>
     length us = length ps \<and> m = claimedAfter ws h ps m0 \<and> h' = h \<and>
     (\<forall>i<length ps. us ! i =
        loopUpdate aggressive (h (ps ! i))
          (fst (detectSessionStatus (ps ! i) ws (claimedAfter ws h (take i ps) m0) h)))"
proof (induction ps arbitrary: us nc ac m h' rule: rev_induct)
  case Nil
  then show ?case by (simp add: claimedAfter_def)
next
  case (snoc p ps)
  obtain us1 nc1 ac1 m1 h1 where
    pre: "foldl (\<lambda>st p. stepSession aggressive ws p st) ([], False, False, m0, h) ps
            = (us1, nc1, ac1, m1, h1)"
    by (metis prod_cases5)
  from snoc.IH [OF pre] have
    len: "length us1 = length ps" and m1: "m1 = claimedAfter ws h ps m0" and h1: "h1 = h"
    and nth: "\<forall>i<length ps. us1 ! i =
        loopUpdate aggressive (h (ps ! i))
          (fst (detectSessionStatus (ps ! i) ws (claimedAfter ws h (take i ps) m0) h))"
    by blast+
  have "stepSession aggressive ws p (us1, nc1, ac1, m1, h) = (us, nc, ac, m, h')"
    using snoc.prems pre h1 by simp
  then have us: "us = us1 @ [loopUpdate aggressive (h p) (fst (detectSessionStatus p ws m1 h))]"
    and m: "m = fst (snd (detectSessionStatus p ws m1 h))" and h': "h' = h"
    using stepSession_eq [of aggressive ws p us1 nc1 ac1 m1 h] by simp_all
  have "\<forall>i<length (ps @ [p]). us ! i =
        loopUpdate aggressive (h ((ps @ [p]) ! i))
          (fst (detectSessionStatus ((ps @ [p]) ! i) ws (claimedAfter ws h (take i (ps @ [p])) m0) h))"
  proof (intro allI impI)
    fix i assume "i < length (ps @ [p])"
    then consider "i < length ps" | "i = length ps" by fastforce
    then show "us ! i =
        loopUpdate aggressive (h ((ps @ [p]) ! i))
          (fst (detectSessionStatus ((ps @ [p]) ! i) ws (claimedAfter ws h (take i (ps @ [p])) m0) h))"
    proof cases
      case 1
      then show ?thesis using nth len us by (simp add: nth_append)
    next
      case 2
      then show ?thesis using len us m1 by (simp add: nth_append)
    qed
  qed
  then show ?case using us len m m1 h' by (simp add: claimedAfter_snoc)
qed

lemma mset_sortInner: "i < j \<Longrightarrow> mset (sortInner i j xs) = mset xs"
proof (induction i j xs rule: sortInner.induct)
  case (1 i j sortable)
  show ?case
  proof (cases "j < length sortable")
    case True
    have sw: "mset (sortable[i := sortable ! j, j := sortable ! i]) = mset sortable"
      using True "1.prems" by (simp add: mset_swap)
    show ?thesis
      using True "1.IH" "1.prems" sw by (subst sortInner.simps) simp
  next
    case False
    then show ?thesis by (subst sortInner.simps) simp
  qed
qed

lemma mset_sortOuter: "mset (sortOuter i xs) = mset xs"
proof (induction i xs rule: sortOuter.induct)
  case (1 i sortable)
  show ?case
  proof (cases "i + 1 < length sortable")
    case True
    then show ?thesis
      using "1.IH" by (subst sortOuter.simps) (simp add: mset_sortInner)
  next
    case False
    then show ?thesis by (subst sortOuter.simps) simp
  qed
qed

lemma mset_processingOrder: "mset (processingOrder sessions stat h) = mset sessions"
proof -
  have "mset (map fst (sortOuter 0 (map (\<lambda>s. (s, sessionMtime stat (h s))) sessions)))
          = image_mset fst (mset (sortOuter 0 (map (\<lambda>s. (s, sessionMtime stat (h s))) sessions)))"
    by simp
  also have "\<dots> = image_mset fst (mset (map (\<lambda>s. (s, sessionMtime stat (h s))) sessions))"
    by (simp only: mset_sortOuter)
  also have "\<dots> = mset sessions"
    by (simp add: image_mset.compositionality comp_def)
  finally show ?thesis by (simp add: processingOrder_def)
qed

lemma compute_as_loop:
  "computeStatusesInternal sessions aggressive ws stat h =
     (case foldl (\<lambda>st p. stepSession aggressive ws p st) ([], False, False, (\<lambda>_. False), h)
             (processingOrder sessions stat h) of
        (updates, namesChanged, anyChanged, matchedWindows, h1) \<Rightarrow>
          ((updates, foldl (\<lambda>m as. m(windowID as := True)) (\<lambda>_. False) ws, namesChanged, anyChanged), h1))"
  by (simp add: computeStatusesInternal_def processingOrder_def foldl_map Let_def)

lemma pass_unroll:
  assumes "computeStatusesInternal sessions aggressive ws stat h = ((updates, live, nc, ac), h')"
  shows "length updates = length (processingOrder sessions stat h)"
    and "h' = h"
    and "\<forall>i<length (processingOrder sessions stat h).
           updates ! i = loopUpdate aggressive (h (processingOrder sessions stat h ! i))
                           (matcherResult ws h (processingOrder sessions stat h) i)"
proof -
  obtain us1 nc1 ac1 m1 h1 where
    l: "foldl (\<lambda>st p. stepSession aggressive ws p st) ([], False, False, (\<lambda>_. False), h)
             (processingOrder sessions stat h) = (us1, nc1, ac1, m1, h1)"
    by (metis prod_cases5)
  with assms have eq: "us1 = updates" "h1 = h'"
    by (simp_all add: compute_as_loop)
  from loop_unroll [OF l] eq
  show "length updates = length (processingOrder sessions stat h)"
    and "h' = h"
    and "\<forall>i<length (processingOrder sessions stat h).
           updates ! i = loopUpdate aggressive (h (processingOrder sessions stat h ! i))
                           (matcherResult ws h (processingOrder sessions stat h) i)"
    by (simp_all add: matcherResult_def claimedBefore_def)
qed


lemma claimedAfter_append:
  "claimedAfter ws h (xs @ ys) m = claimedAfter ws h ys (claimedAfter ws h xs m)"
  by (simp add: claimedAfter_def)

lemma claimedBefore_Suc:
  "i < length order \<Longrightarrow>
     claimedBefore ws h order (Suc i) =
       fst (snd (detectSessionStatus (order ! i) ws (claimedBefore ws h order i) h))"
  by (simp add: claimedBefore_def take_Suc_conv_app_nth claimedAfter_snoc)

lemma claimedBefore_mono:
  assumes "i \<le> j" and "claimedBefore ws h order i w"
  shows "claimedBefore ws h order j w"
proof -
  have "take j order = take i order @ drop i (take j order)"
    using assms(1) by (metis append_take_drop_id min.absorb1 take_take)
  then have "claimedBefore ws h order j =
      claimedAfter ws h (drop i (take j order)) (claimedBefore ws h order i)"
    by (metis claimedAfter_append claimedBefore_def)
  then show ?thesis using assms(2) by (simp add: claimedAfter_mono)
qed

lemma matcherResult_cases:
  "matcherResult ws h order i =
     (case matchAt ws h order i of
        None \<Rightarrow> (StatusIdle, [], 0, False)
      | Some (a, strong) \<Rightarrow>
          (if hasSpinner a then StatusRunning else StatusWaiting, tabTitle a, windowID a, strong))"
  by (simp add: matcherResult_def matchAt_def detect_cases split: option.splits)

lemma matchAt_fresh:
  assumes "matchAt ws h order i = Some (a, strong)" and "i < length order"
  shows "a \<in> set ws" and "\<not> claimedBefore ws h order i (windowID a)"
    and "claimedBefore ws h order (Suc i) (windowID a)"
proof -
  from assms(1) have mw: "matchWindow (h (order ! i)) ws (claimedBefore ws h order i) = Some (a, strong)"
    by (simp add: matchAt_def)
  from matchWindow_Some [OF mw]
  show "a \<in> set ws" and "\<not> claimedBefore ws h order i (windowID a)" by simp_all
  show "claimedBefore ws h order (Suc i) (windowID a)"
    using assms(2) mw by (simp add: claimedBefore_Suc detect_cases)
qed

lemma matched_windows_differ:
  assumes "i < j" and "j < length order"
    and "matchAt ws h order i = Some (a, sa)" and "matchAt ws h order j = Some (b, sb)"
  shows "windowID a \<noteq> windowID b"
proof
  assume eq: "windowID a = windowID b"
  have "claimedBefore ws h order (Suc i) (windowID a)"
    using matchAt_fresh(3) [OF assms(3)] assms(1,2) by simp
  then have "claimedBefore ws h order j (windowID a)"
    using claimedBefore_mono [of "Suc i" j] assms(1) by simp
  moreover have "\<not> claimedBefore ws h order j (windowID b)"
    using matchAt_fresh(2) [OF assms(4,2)] .
  ultimately show False using eq by simp
qed

lemma matcher_handles_exclusive:
  assumes "i < j" and "j < length order"
    and "rWindowID (matcherResult ws h order i) = rWindowID (matcherResult ws h order j)"
  shows "rWindowID (matcherResult ws h order i) = 0"
proof (cases "matchAt ws h order i")
  case None
  then show ?thesis by (simp add: matcherResult_cases rWindowID_def)
next
  case (Some x)
  then obtain a sa where a: "matchAt ws h order i = Some (a, sa)" by (cases x) auto
  show ?thesis
  proof (cases "matchAt ws h order j")
    case None
    then show ?thesis using assms(3) by (simp add: matcherResult_cases rWindowID_def)
  next
    case (Some y)
    then obtain b sb where b: "matchAt ws h order j = Some (b, sb)" by (cases y) auto
    from matched_windows_differ [OF assms(1,2) a b] assms(3) a b
    show ?thesis by (simp add: matcherResult_cases rWindowID_def)
  qed
qed

lemma loopUpdate_handle:
  "uKittyWindowID (loopUpdate aggressive s r) =
     (if rStrong r \<or> aggressive then rWindowID r else KittyWindowID s)"
  by (cases r) (simp add: loopUpdate_def rStrong_def rWindowID_def)

lemma loopUpdate_fields:
  "uSessionID (loopUpdate aggressive s r) = ClaudeSessionID s"
  "uStatus (loopUpdate aggressive s r) = rStatus r"
  "uName (loopUpdate aggressive s r) =
     (if (rStrong r \<or> aggressive) \<and> rTitle r \<noteq> [] \<and> \<not> Renamed s
           \<and> cleanClaudeTitle (rTitle r) \<noteq> [] \<and> cleanClaudeTitle (rTitle r) \<noteq> Name s
      then cleanClaudeTitle (rTitle r) else [])"
  by (cases r; simp add: loopUpdate_def rStrong_def rWindowID_def rTitle_def rStatus_def)+

lemma pathMatch_descendant:
  "pathMatch a s \<longleftrightarrow>
     projectPath a = ProjectPath s \<or> (\<exists>rest. projectPath a = ProjectPath s @ ''/'' @ rest)"
proof -
  have "HasPrefix x p \<longleftrightarrow> (\<exists>rest. x = p @ rest)" for x p :: string
    unfolding HasPrefix_def
    by (metis append_eq_conv_conj append_take_drop_id length_append le_add1)
  then show ?thesis by (simp add: pathMatch_def)
qed

lemma newActiveSession_spinner:
  "hasSpinner (newActiveSession winID cwd title cmdline)
     = hasSpinnerIndicator (tabTitle (newActiveSession winID cwd title cmdline))"
  by (simp add: newActiveSession_def Let_def)

lemma collectActive_spinner:
  "a \<in> set (collectActive osWindows) \<Longrightarrow> hasSpinner a = hasSpinnerIndicator (tabTitle a)"
  by (auto simp: collectActive_def map_filter_def windowEntry_def Let_def newActiveSession_spinner
        split: if_splits)

lemma snapshot_spinner:
  "set ws = set (collectActive osWindows) \<Longrightarrow>
     \<forall>a\<in>set ws. hasSpinner a = hasSpinnerIndicator (tabTitle a)"
  using collectActive_spinner by blast

lemma exKitty_collect: "collectActive exKitty = [exWin7, exWin8]"
  by (simp add: exKitty_def collectActive_def map_filter_def windowEntry_def newActiveSession_def
        Contains_def Index_def HasPrefix_def isSessionIDChar_def hasClaudeIndicator_def
        hasSpinnerIndicator_def exWin7_def exWin8_def Let_def)

lemma weak_match_iff:
  "matchWindow s ws m = Some (a, False) \<longleftrightarrow>
     tierStored s ws m = None \<and> tierResume s ws m = None \<and> tierPath s ws m = Some a"
  by (auto simp: matchWindow_def split: option.splits)

lemma pass_session_ids:
  assumes "computeStatusesInternal sessions aggressive ws stat h = ((updates, live, nc, ac), h')"
    and "i < length updates"
  shows "uSessionID (updates ! i) = ClaudeSessionID (h (processingOrder sessions stat h ! i))"
  using pass_unroll [OF assms(1)] assms(2) by (simp add: loopUpdate_fields)

section \<open>Facts about the applier and the claim helper\<close>

lemma updateMap_foldl_None:
  "foldl (\<lambda>m u. m(uSessionID u \<mapsto> u)) m updates k = None
     \<longleftrightarrow> m k = None \<and> (\<forall>u\<in>set updates. uSessionID u \<noteq> k)"
  by (induction updates arbitrary: m) auto

lemma buildUpdateMap_None:
  "buildUpdateMap updates k = None \<longleftrightarrow> (\<forall>u\<in>set updates. uSessionID u \<noteq> k)"
  by (simp add: buildUpdateMap_def updateMap_foldl_None)

lemma claimed_foldl_Some:
  "foldl (\<lambda>m u. if uKittyWindowID u > 0 then m(uKittyWindowID u \<mapsto> uSessionID u) else m) m updates w
     = Some c \<Longrightarrow>
   m w = Some c \<or> (0 < w \<and> (\<exists>u\<in>set updates. uKittyWindowID u = w \<and> uSessionID u = c))"
proof (induction updates arbitrary: m)
  case Nil
  then show ?case by simp
next
  case (Cons u us)
  from Cons.IH [OF Cons.prems [simplified]] show ?case
    by (auto split: if_splits)
qed

lemma buildClaimedWindows_Some:
  "buildClaimedWindows updates w = Some c \<Longrightarrow>
     0 < w \<and> (\<exists>u\<in>set updates. uKittyWindowID u = w \<and> uSessionID u = c)"
  using claimed_foldl_Some [of Map.empty updates w c] by (simp add: buildClaimedWindows_def)

lemma claimed_foldl_dom:
  "(\<exists>c. foldl (\<lambda>m u. if uKittyWindowID u > 0 then m(uKittyWindowID u \<mapsto> uSessionID u) else m) m updates w
       = Some c)
     \<longleftrightarrow> (\<exists>c. m w = Some c) \<or> (0 < w \<and> (\<exists>u\<in>set updates. uKittyWindowID u = w))"
  by (induction updates arbitrary: m) auto

lemma buildClaimedWindows_dom:
  "(\<exists>c. buildClaimedWindows updates w = Some c)
     \<longleftrightarrow> 0 < w \<and> (\<exists>u\<in>set updates. uKittyWindowID u = w)"
  using claimed_foldl_dom [of Map.empty updates w] by (simp add: buildClaimedWindows_def)

lemma apply_other:
  assumes "q \<noteq> s" and "applyToSession um cw q (c, n, h) = (c', n', h')"
  shows "h' s = h s \<and> (c \<longrightarrow> c') \<and> (n \<longrightarrow> n')"
  using assms
  by (auto simp: applyToSession_def Let_def split: option.splits if_splits prod.splits)

lemma apply_self_no_update:
  assumes "um (ClaudeSessionID (h s)) = None"
  shows "applyToSession um cw s (c, n, h) =
           (if KittyWindowID (h s) > 0
               \<and> (\<exists>cl. cw (KittyWindowID (h s)) = Some cl \<and> cl \<noteq> ClaudeSessionID (h s))
            then (True, True, h(s := (h s)\<lparr>KittyWindowID := 0\<rparr>))
            else (c, n, h))"
  using assms by (auto simp: applyToSession_def split: option.splits)

lemma apply_loop_cleared:
  assumes "um (ClaudeSessionID (h s)) = None" and "KittyWindowID (h s) = 0" and "c" and "n"
    and "foldl (\<lambda>st q. applyToSession um cw q st) (c, n, h) ps = (c', n', h')"
  shows "KittyWindowID (h' s) = 0 \<and> c' \<and> n'"
  using assms
proof (induction ps arbitrary: c n h)
  case Nil
  then show ?case by simp
next
  case (Cons q ps)
  obtain c1 n1 h1 where st: "applyToSession um cw q (c, n, h) = (c1, n1, h1)"
    by (metis prod_cases3)
  have "h1 s = h s \<and> c1 \<and> n1"
  proof (cases "q = s")
    case True
    then show ?thesis using st Cons.prems(1-4) by (simp add: apply_self_no_update)
  next
    case False
    then show ?thesis using apply_other [OF False st] Cons.prems(3,4) by simp
  qed
  then show ?case
    using Cons.IH [of h1 c1 n1] Cons.prems(1,2,5) st by simp
qed

lemma apply_loop_clears:
  assumes "um (ClaudeSessionID (h s)) = None" and "0 < KittyWindowID (h s)"
    and "cw (KittyWindowID (h s)) = Some cl" and "cl \<noteq> ClaudeSessionID (h s)"
    and "s \<in> set ps"
    and "foldl (\<lambda>st q. applyToSession um cw q st) (c, n, h) ps = (c', n', h')"
  shows "KittyWindowID (h' s) = 0 \<and> c' \<and> n'"
  using assms
proof (induction ps arbitrary: c n h)
  case Nil
  then show ?case by simp
next
  case (Cons q ps)
  obtain c1 n1 h1 where st: "applyToSession um cw q (c, n, h) = (c1, n1, h1)"
    by (metis prod_cases3)
  have rest: "foldl (\<lambda>st q. applyToSession um cw q st) (c1, n1, h1) ps = (c', n', h')"
    using Cons.prems(6) st by simp
  show ?case
  proof (cases "q = s")
    case True
    then have "c1 \<and> n1 \<and> h1 = h(s := (h s)\<lparr>KittyWindowID := 0\<rparr>)"
      using st Cons.prems(1-4) by (simp add: apply_self_no_update)
    then show ?thesis
      using apply_loop_cleared [of um h1 s c1 n1 cw ps c' n' h'] rest Cons.prems(1) by simp
  next
    case False
    then have "h1 s = h s" using apply_other [OF False st] by simp
    moreover have "s \<in> set ps" using False Cons.prems(5) by auto
    ultimately show ?thesis
      using Cons.IH [of h1 c1 n1] Cons.prems(1-4) rest by simp
  qed
qed

lemma claim_loop:
  assumes "w \<noteq> 0"
  shows "foldl (claimStep c w) (md, h) ps =
           (md \<or> (\<exists>p\<in>set ps. p \<noteq> c \<and> KittyWindowID (h p) = w),
            (\<lambda>p. if p \<in> set ps \<and> p \<noteq> c \<and> KittyWindowID (h p) = w
                 then (h p)\<lparr>KittyWindowID := 0\<rparr> else h p))"
proof (induction ps arbitrary: md h)
  case Nil
  then show ?case by simp
next
  case (Cons q ps)
  show ?case
  proof (cases "q \<noteq> c \<and> KittyWindowID (h q) = w")
    case True
    let ?h1 = "h(q := (h q)\<lparr>KittyWindowID := 0\<rparr>)"
    have step: "claimStep c w (md, h) q = (True, ?h1)"
      using True by (simp add: claimStep_def)
    have k: "KittyWindowID (?h1 p) = w \<longleftrightarrow> p \<noteq> q \<and> KittyWindowID (h p) = w" for p
      using assms by simp
    show ?thesis
      using True by (simp add: step Cons.IH k) (auto simp: fun_eq_iff)
  next
    case False
    then have step: "claimStep c w (md, h) q = (md, h)"
      by (auto simp: claimStep_def)
    show ?thesis
      using False by (simp add: step Cons.IH) (auto simp: fun_eq_iff)
  qed
qed

lemma updateMap_foldl_Some:
  "foldl (\<lambda>m u. m(uSessionID u \<mapsto> u)) m updates k = Some u \<Longrightarrow>
     m k = Some u \<or> (u \<in> set updates \<and> uSessionID u = k)"
proof (induction updates arbitrary: m)
  case Nil
  then show ?case by simp
next
  case (Cons v vs)
  from Cons.IH [OF Cons.prems [unfolded foldl_Cons]] show ?case
    by (auto split: if_splits)
qed

lemma buildUpdateMap_Some:
  "buildUpdateMap updates k = Some u \<Longrightarrow> u \<in> set updates \<and> uSessionID u = k"
  using updateMap_foldl_Some [of Map.empty updates k u] by (simp add: buildUpdateMap_def)

lemma locked_update_unnamed:
  assumes "computeStatusesInternal sessions aggressive ws stat h = ((updates, live, nc, ac), h')"
    and "i < length updates"
    and "Renamed (h (processingOrder sessions stat h ! i))"
  shows "uName (updates ! i) = []"
  using pass_unroll [OF assms(1)] assms(2,3) by (simp add: loopUpdate_fields)

lemma apply_step_name:
  assumes "applyToSession um cw q (c, n, h) = (c', n', h')"
    and "q \<noteq> s \<or> (\<forall>u. um (ClaudeSessionID (h s)) = Some u \<longrightarrow> uName u = [])"
  shows "Name (h' s) = Name (h s) \<and> ClaudeSessionID (h' s) = ClaudeSessionID (h s)"
  using assms
  by (auto simp: applyToSession_def Let_def split: option.splits if_splits prod.splits)

lemma apply_loop_name:
  assumes "foldl (\<lambda>st q. applyToSession um cw q st) (c, n, h) ps = (c', n', h')"
    and "\<forall>u. um (ClaudeSessionID (h s)) = Some u \<longrightarrow> uName u = []"
  shows "Name (h' s) = Name (h s)"
  using assms
proof (induction ps arbitrary: c n h)
  case Nil
  then show ?case by simp
next
  case (Cons q ps)
  obtain c1 n1 h1 where st: "applyToSession um cw q (c, n, h) = (c1, n1, h1)"
    by (metis prod_cases3)
  have k: "Name (h1 s) = Name (h s) \<and> ClaudeSessionID (h1 s) = ClaudeSessionID (h s)"
    using apply_step_name [OF st] Cons.prems(2) by blast
  then show ?case
    using Cons.IH [of c1 n1 h1] Cons.prems st by simp
qed

lemma apply_keeps_unnamed:
  assumes "ApplyStatusUpdates sessions updates h = (r, h')"
    and "\<forall>u. buildUpdateMap updates (ClaudeSessionID (h s)) = Some u \<longrightarrow> uName u = []"
  shows "Name (h' s) = Name (h s)"
proof -
  obtain c n where
    "foldl (\<lambda>st q. applyToSession (buildUpdateMap updates) (buildClaimedWindows updates) q st)
          (False, False, h) sessions = (c, n, h')"
    using assms(1) by (auto simp: ApplyStatusUpdates_def Let_def split: prod.splits)
  from apply_loop_name [OF this assms(2)] show ?thesis .
qed

section \<open>Title cleaning (C3)\<close>

lemma dropWhile_fixed:
  "xs = [] \<or> \<not> P (hd xs) \<Longrightarrow> dropWhile P xs = xs"
  by (cases xs) auto

lemma dropWhile_head:
  "dropWhile P xs = [] \<or> \<not> P (hd (dropWhile P xs))"
  by (induction xs) auto

lemma TrimSpace_ends:
  "TrimSpace s = [] \<or> (\<not> IsSpace (hd (TrimSpace s)) \<and> \<not> IsSpace (last (TrimSpace s)))"
proof (cases "TrimSpace s = []")
  case True
  then show ?thesis by simp
next
  case False
  let ?a = "dropWhile IsSpace s"
  let ?b = "dropWhile IsSpace (rev ?a)"
  from False have b: "?b \<noteq> []" by (simp add: TrimSpace_def)
  have lastT: "last (TrimSpace s) = hd ?b"
    using b by (simp add: TrimSpace_def last_rev)
  have "\<not> IsSpace (hd ?b)" using dropWhile_head [of IsSpace "rev ?a"] b by blast
  then have l: "\<not> IsSpace (last (TrimSpace s))" using lastT by simp
  have a: "?a \<noteq> []" using b by (metis dropWhile.simps(1) rev.simps(1))
  then have na: "\<not> IsSpace (hd ?a)" using dropWhile_head [of IsSpace s] by blast
  have "\<not> IsSpace (last (rev ?a))" using a na by (simp add: last_rev)
  have sub: "\<exists>zs. rev ?a = zs @ ?b"
    by (metis takeWhile_dropWhile_id)
  then obtain zs where zs: "rev ?a = zs @ ?b" by blast
  then have "?a = rev ?b @ rev zs" by (metis rev_append rev_rev_ident)
  then have "hd ?a = hd (rev ?b)" using b by (metis hd_append2 rev_is_Nil_conv)
  then have "\<not> IsSpace (hd (TrimSpace s))" using na by (simp add: TrimSpace_def)
  with l show ?thesis by blast
qed

lemma TrimSpace_fixed:
  assumes "s = [] \<or> (\<not> IsSpace (hd s) \<and> \<not> IsSpace (last s))"
  shows "TrimSpace s = s"
proof (cases "s = []")
  case True
  then show ?thesis by (simp add: TrimSpace_def)
next
  case False
  with assms have h: "\<not> IsSpace (hd s)" and l: "\<not> IsSpace (last s)" by auto
  have 1: "dropWhile IsSpace s = s" using h by (simp add: dropWhile_fixed)
  have "\<not> IsSpace (hd (rev s))" using l False by (simp add: hd_rev)
  then have 2: "dropWhile IsSpace (rev s) = rev s" by (simp add: dropWhile_fixed)
  show ?thesis by (simp add: TrimSpace_def 1 2)
qed

lemma TrimSpace_idem: "TrimSpace (TrimSpace s) = TrimSpace s"
  using TrimSpace_ends [of s] by (intro TrimSpace_fixed) blast

lemma length_TrimSpace: "length (TrimSpace s) \<le> length s"
proof -
  have "length (dropWhile IsSpace (rev (dropWhile IsSpace s))) \<le> length (rev (dropWhile IsSpace s))"
    by (rule length_dropWhile_le)
  also have "\<dots> \<le> length s" by (simp add: length_dropWhile_le)
  finally show ?thesis by (simp add: TrimSpace_def)
qed

text \<open>
  C3 (as amended). Cleaning a title twice gives the same result as cleaning it once exactly
  when the once-cleaned title does not itself begin with an indicator character: the
  function removes one leading indicator only.
\<close>

theorem cleanClaudeTitle_idempotent_iff:
  "cleanClaudeTitle (cleanClaudeTitle t) = cleanClaudeTitle t
     \<longleftrightarrow> \<not> hasClaudeIndicator (cleanClaudeTitle t)"
proof (cases "cleanClaudeTitle t")
  case Nil
  then show ?thesis by (simp add: cleanClaudeTitle_def Let_def hasClaudeIndicator_def)
next
  case (Cons r rest)
  have trimmed: "\<exists>y. cleanClaudeTitle t = TrimSpace y"
  proof (cases t)
    case Nil
    then have "cleanClaudeTitle t = TrimSpace []"
      by (simp add: cleanClaudeTitle_def Let_def TrimSpace_def)
    then show ?thesis by blast
  next
    case (Cons a as)
    then have "cleanClaudeTitle t = TrimSpace as \<or> cleanClaudeTitle t = TrimSpace (a # as)"
      by (simp add: cleanClaudeTitle_def Let_def)
    then show ?thesis by blast
  qed
  then obtain y where y: "cleanClaudeTitle t = TrimSpace y" by blast
  show ?thesis
  proof (cases "r = 0x2733 \<or> (r \<ge> 0x2800 \<and> r \<le> 0x283F)")
    case True
    then have "cleanClaudeTitle (r # rest) = TrimSpace rest"
      by (simp add: cleanClaudeTitle_def Let_def)
    then have "length (cleanClaudeTitle (r # rest)) \<le> length rest"
      by (simp add: length_TrimSpace)
    then have "cleanClaudeTitle (r # rest) \<noteq> r # rest" by auto
    moreover have "hasClaudeIndicator (r # rest)"
      using True by (simp add: hasClaudeIndicator_def)
    ultimately show ?thesis using Cons by simp
  next
    case False
    then have "cleanClaudeTitle (r # rest) = TrimSpace (r # rest)"
      by (auto simp add: cleanClaudeTitle_def Let_def)
    also have "\<dots> = r # rest" using Cons y TrimSpace_idem [of y] by simp
    finally have "cleanClaudeTitle (r # rest) = r # rest" .
    moreover have "\<not> hasClaudeIndicator (r # rest)"
      using False by (simp add: hasClaudeIndicator_def)
    ultimately show ?thesis using Cons by simp
  qed
qed

text \<open>
  C3 (as stated) fails: the title of two unsaved markers followed by \<open>x\<close> is cleaned to
  one marker followed by \<open>x\<close>, and cleaning that again gives \<open>x\<close>.
\<close>

theorem cleanClaudeTitle_not_idempotent:
  "cleanClaudeTitle [0x2733, 0x2733, 0x78] = [0x2733, 0x78]
   \<and> cleanClaudeTitle (cleanClaudeTitle [0x2733, 0x2733, 0x78]) = [0x78]
   \<and> cleanClaudeTitle (cleanClaudeTitle [0x2733, 0x2733, 0x78])
       \<noteq> cleanClaudeTitle [0x2733, 0x2733, 0x78]"
  by (simp add: cleanClaudeTitle_def Let_def TrimSpace_def IsSpace_def)

text \<open>An instance of the amended C3: the title \<open>x y\<close> between blanks, behind a spinner.\<close>

theorem cleanClaudeTitle_idempotent_iff_witness:
  "\<not> hasClaudeIndicator (cleanClaudeTitle [0x2802, 0x20, 0x78, 0x20, 0x79, 0x20])
   \<and> cleanClaudeTitle (cleanClaudeTitle [0x2802, 0x20, 0x78, 0x20, 0x79, 0x20])
       = cleanClaudeTitle [0x2802, 0x20, 0x78, 0x20, 0x79, 0x20]"
proof -
  have "\<not> hasClaudeIndicator (cleanClaudeTitle [0x2802, 0x20, 0x78, 0x20, 0x79, 0x20])"
    by (simp add: cleanClaudeTitle_def Let_def TrimSpace_def IsSpace_def hasClaudeIndicator_def)
  then show ?thesis
    using cleanClaudeTitle_idempotent_iff [of "[0x2802, 0x20, 0x78, 0x20, 0x79, 0x20]"]
    by blast
qed

section \<open>Exclusive claims (C1)\<close>

text \<open>
  C1 (as amended). In an aggressive pass, and in a normal pass for two sessions that were
  both strongly matched, two updates of the pass do not carry the same window id unless
  it is 0: an update of an aggressive pass, or of a strongly matched session, carries the
  window id the matcher returned. In a normal pass the update of a session that was
  weakly matched or not matched carries the session's stored window id.
\<close>

theorem claims_exclusive:
  assumes "computeStatusesInternal sessions aggressive activeSessions stat h
             = ((updates, live, namesChanged, anyChanged), h')"
  shows "(\<forall>i j. i < j \<and> j < length updates
            \<and> (aggressive \<or>
                 (rStrong (matcherResult activeSessions h (processingOrder sessions stat h) i)
                  \<and> rStrong (matcherResult activeSessions h (processingOrder sessions stat h) j)))
            \<longrightarrow> uKittyWindowID (updates ! i) = 0
                \<or> uKittyWindowID (updates ! i) \<noteq> uKittyWindowID (updates ! j))
       \<and> (\<forall>k<length updates.
            (aggressive \<or> rStrong (matcherResult activeSessions h (processingOrder sessions stat h) k)
               \<longrightarrow> uKittyWindowID (updates ! k)
                     = rWindowID (matcherResult activeSessions h (processingOrder sessions stat h) k))
            \<and> (\<not> aggressive
                 \<and> \<not> rStrong (matcherResult activeSessions h (processingOrder sessions stat h) k)
               \<longrightarrow> uKittyWindowID (updates ! k)
                     = KittyWindowID (h (processingOrder sessions stat h ! k))))"
proof -
  let ?order = "processingOrder sessions stat h"
  note u = pass_unroll [OF assms(1)]
  have handle: "uKittyWindowID (updates ! k) =
      (if rStrong (matcherResult activeSessions h ?order k) \<or> aggressive
       then rWindowID (matcherResult activeSessions h ?order k)
       else KittyWindowID (h (?order ! k)))" if "k < length updates" for k
    using u(1,3) that by (simp add: loopUpdate_handle)
  have excl: "uKittyWindowID (updates ! i) = 0
              \<or> uKittyWindowID (updates ! i) \<noteq> uKittyWindowID (updates ! j)"
    if "i < j" "j < length updates"
      "aggressive \<or> (rStrong (matcherResult activeSessions h ?order i)
                       \<and> rStrong (matcherResult activeSessions h ?order j))" for i j
  proof -
    have j: "j < length ?order" using that(2) u(1) by simp
    have i: "i < length updates" using that(1,2) by simp
    show ?thesis
      using matcher_handles_exclusive [OF that(1) j, of activeSessions h]
        handle [OF i] handle [OF that(2)] that(3) by auto
  qed
  show ?thesis using excl handle by auto
qed

text \<open>Two instances of C1, both normal passes. In the first, session 0 is matched by its
  stored window 8 and session 1 by its explicit session id in window 7; both matches are
  strong. In the second, session 0 stores window 7 and is weakly matched to window 8; its
  update carries 7.\<close>

theorem claims_exclusive_witness:
  "rStrong (matcherResult [exWin7, exWin8] exHeap8 (processingOrder [0, 1] (\<lambda>_. None) exHeap8) 0)
   \<and> rStrong (matcherResult [exWin7, exWin8] exHeap8 (processingOrder [0, 1] (\<lambda>_. None) exHeap8) 1)
   \<and> map uKittyWindowID
         (fst (fst (computeStatusesInternal [0, 1] False [exWin7, exWin8] (\<lambda>_. None) exHeap8)))
       = [8, 7]
   \<and> (uKittyWindowID
         (fst (fst (computeStatusesInternal [0, 1] False [exWin7, exWin8] (\<lambda>_. None) exHeap8)) ! 0) = 0
       \<or> uKittyWindowID
         (fst (fst (computeStatusesInternal [0, 1] False [exWin7, exWin8] (\<lambda>_. None) exHeap8)) ! 0)
         \<noteq> uKittyWindowID
         (fst (fst (computeStatusesInternal [0, 1] False [exWin7, exWin8] (\<lambda>_. None) exHeap8)) ! 1))
   \<and> rStrong (matcherResult [exWin7, exWin8] exHeap (processingOrder [0, 1] (\<lambda>_. None) exHeap) 0)
       = False
   \<and> rWindowID (matcherResult [exWin7, exWin8] exHeap (processingOrder [0, 1] (\<lambda>_. None) exHeap) 0)
       = 8
   \<and> KittyWindowID (exHeap (processingOrder [0, 1] (\<lambda>_. None) exHeap ! 0)) = 7
   \<and> uKittyWindowID
         (fst (fst (computeStatusesInternal [0, 1] False [exWin7, exWin8] (\<lambda>_. None) exHeap)) ! 0) = 7"
proof -
  let ?r = "computeStatusesInternal [0, 1] False [exWin7, exWin8] (\<lambda>_. None) exHeap8"
  let ?order = "processingOrder [0, 1] (\<lambda>_. None) exHeap8"
  let ?r' = "computeStatusesInternal [0, 1] False [exWin7, exWin8] (\<lambda>_. None) exHeap"
  let ?order' = "processingOrder [0, 1] (\<lambda>_. None) exHeap"
  have s0: "rStrong (matcherResult [exWin7, exWin8] exHeap8 ?order 0)"
    and s1: "rStrong (matcherResult [exWin7, exWin8] exHeap8 ?order 1)"
    by (simp_all add: trace_defs pass_defs ex_defs exHeap8_def)
  have v: "map uKittyWindowID (fst (fst ?r)) = [8, 7]"
    by (simp add: pass_defs ex_defs exHeap8_def)
  then have len: "1 < length (fst (fst ?r))"
    by (metis length_map length_Cons list.size(3) lessI One_nat_def)
  have e: "uKittyWindowID (fst (fst ?r) ! 0) = 0
        \<or> uKittyWindowID (fst (fst ?r) ! 0) \<noteq> uKittyWindowID (fst (fst ?r) ! 1)"
    using claims_exclusive [OF result_split, of "[0, 1]" False "[exWin7, exWin8]" "\<lambda>_. None" exHeap8]
      len s0 s1 by (metis zero_less_one)
  have w0: "rStrong (matcherResult [exWin7, exWin8] exHeap ?order' 0) = False"
    and w1: "rWindowID (matcherResult [exWin7, exWin8] exHeap ?order' 0) = 8"
    and w2: "KittyWindowID (exHeap (?order' ! 0)) = 7"
    by (simp_all add: trace_defs pass_defs ex_defs)
  have len': "0 < length (fst (fst ?r'))"
    using pass_unroll(1) [OF result_split, of "[0, 1]" False "[exWin7, exWin8]" "\<lambda>_. None" exHeap]
    by (simp add: trace_defs pass_defs ex_defs)
  have k: "uKittyWindowID (fst (fst ?r') ! 0) = 7"
    using claims_exclusive [OF result_split, of "[0, 1]" False "[exWin7, exWin8]" "\<lambda>_. None" exHeap]
      len' w0 w2 by simp
  from s0 s1 v e w0 w1 w2 k show ?thesis by blast
qed

text \<open>
  C1 (as stated) fails in a normal pass: session 0 stores window 7, which now runs
  session \<open>bb\<close>. Session 0 is not matched and its update keeps the stored 7; session 1
  is matched to window 7 by its session id.
\<close>

theorem stale_handle_repeats:
  "map uKittyWindowID (fst (fst (ComputeStatuses [0, 1] [exWin7] (\<lambda>_. None) exHeap))) = [7, 7]"
  by (simp add: pass_defs ex_defs)

section \<open>The working-directory tier (C2)\<close>

text \<open>
  C2 (as amended). For a session that fails the stored-handle tier and the
  explicit-session-id tier: when it has a transcript path, the matcher weak-matches the
  first window that has no explicit session id, is not claimed, and whose working
  directory is the session's project path or below it (\<open>pathMatch\<close>, see
  \<open>pathMatch_descendant\<close>), and reports no match when there is none; when it has no
  transcript path, the matcher reports no match.
\<close>

theorem path_tier_needs_transcript:
  assumes "tierStored (h s) activeSessions matchedWindows = None"
    and "tierResume (h s) activeSessions matchedWindows = None"
  shows "(JSONLPath (h s) \<noteq> [] \<longrightarrow>
            detectSessionStatus s activeSessions matchedWindows h =
              (case find (\<lambda>a. sessionID a = [] \<and> \<not> matchedWindows (windowID a) \<and> pathMatch a (h s))
                      activeSessions of
                 None \<Rightarrow> ((StatusIdle, [], 0, False), matchedWindows, h)
               | Some a \<Rightarrow>
                   ((if hasSpinner a then StatusRunning else StatusWaiting, tabTitle a, windowID a, False),
                    matchedWindows(windowID a := True), h)))
       \<and> (JSONLPath (h s) = [] \<longrightarrow>
            detectSessionStatus s activeSessions matchedWindows h
              = ((StatusIdle, [], 0, False), matchedWindows, h))"
  using assms
  by (simp add: detect_cases matchWindow_def tierPath_def matchByProjectPath_find
        split: option.splits)

theorem path_tier_needs_transcript_witness:
  "tierStored (exHeap 0) [exWin7, exWin8] (\<lambda>_. False) = None
   \<and> tierResume (exHeap 0) [exWin7, exWin8] (\<lambda>_. False) = None
   \<and> JSONLPath (exHeap 0) \<noteq> []
   \<and> detectSessionStatus 0 [exWin7, exWin8] (\<lambda>_. False) exHeap
       = ((StatusWaiting, [0x69], 8, False), (\<lambda>_. False)(8 := True), exHeap)"
proof -
  have 1: "tierStored (exHeap 0) [exWin7, exWin8] (\<lambda>_. False) = None"
    by (simp add: tierStored_def ex_defs)
  have 2: "tierResume (exHeap 0) [exWin7, exWin8] (\<lambda>_. False) = None"
    by (simp add: tierResume_def ex_defs)
  have 3: "JSONLPath (exHeap 0) \<noteq> []" by (simp add: ex_defs)
  from path_tier_needs_transcript
         [where h = exHeap and s = 0 and activeSessions = "[exWin7, exWin8]"
            and matchedWindows = "\<lambda>_. False", OF 1 2] 3
  have "detectSessionStatus 0 [exWin7, exWin8] (\<lambda>_. False) exHeap
       = ((StatusWaiting, [0x69], 8, False), (\<lambda>_. False)(8 := True), exHeap)"
    by (simp add: ex_defs pathMatch_def HasPrefix_def)
  with 1 2 3 show ?thesis by blast
qed

text \<open>
  C2 (as stated) fails for a session without a transcript path: window 8 is unclaimed, has
  no explicit session id and stands below the session's project path, yet the matcher
  reports no match.
\<close>

theorem path_tier_skipped_without_transcript:
  "tierStored (exHeapNoTranscript 0) [exWin7, exWin8] (\<lambda>_. False) = None
   \<and> tierResume (exHeapNoTranscript 0) [exWin7, exWin8] (\<lambda>_. False) = None
   \<and> find (\<lambda>a. sessionID a = [] \<and> \<not> (\<lambda>_. False) (windowID a) \<and> pathMatch a (exHeapNoTranscript 0))
              [exWin7, exWin8] = Some exWin8
   \<and> fst (detectSessionStatus 0 [exWin7, exWin8] (\<lambda>_. False) exHeapNoTranscript)
        = (StatusIdle, [], 0, False)
   \<and> fst (detectSessionStatus 0 [exWin7, exWin8] (\<lambda>_. False) exHeapNoTranscript)
        \<noteq> (StatusWaiting, tabTitle exWin8, windowID exWin8, False)"
  by (simp add: exHeapNoTranscript_def pass_defs ex_defs)

section \<open>Status of a matched session (C4)\<close>

text \<open>
  C4. In a pass over the snapshot of the provider (the entries that \<open>collectActive\<close>
  builds from the decoded output of kitty, in any order), the status in the \<open>i\<close>-th
  update is Running exactly when a window was matched to that session and the window's
  title begins with a spinner character, Waiting exactly when a window was matched and
  its title does not, and Idle exactly when no window was matched; when no tier matches,
  the matcher returns \<open>(Idle, "", 0, false)\<close>.
\<close>

theorem status_follows_busy_indicator:
  assumes "computeStatusesInternal sessions aggressive activeSessions stat h
             = ((updates, live, namesChanged, anyChanged), h')"
    and "mset activeSessions = mset (collectActive osWindows)"
    and "i < length updates"
  shows "(uStatus (updates ! i) = StatusRunning \<longleftrightarrow>
            (\<exists>a strong. matchAt activeSessions h (processingOrder sessions stat h) i = Some (a, strong)
               \<and> hasSpinnerIndicator (tabTitle a)))
       \<and> (uStatus (updates ! i) = StatusWaiting \<longleftrightarrow>
            (\<exists>a strong. matchAt activeSessions h (processingOrder sessions stat h) i = Some (a, strong)
               \<and> \<not> hasSpinnerIndicator (tabTitle a)))
       \<and> (uStatus (updates ! i) = StatusIdle \<longleftrightarrow>
            matchAt activeSessions h (processingOrder sessions stat h) i = None)
       \<and> (matchAt activeSessions h (processingOrder sessions stat h) i = None \<longrightarrow>
            matcherResult activeSessions h (processingOrder sessions stat h) i
              = (StatusIdle, [], 0, False))"
proof -
  let ?order = "processingOrder sessions stat h"
  note u = pass_unroll [OF assms(1)]
  have i: "i < length ?order" using assms(3) u(1) by simp
  have "set activeSessions = set (collectActive osWindows)"
    using assms(2) by (metis set_mset_mset)
  then have wf: "\<forall>a\<in>set activeSessions. hasSpinner a = hasSpinnerIndicator (tabTitle a)"
    by (rule snapshot_spinner)
  have st: "uStatus (updates ! i) = rStatus (matcherResult activeSessions h ?order i)"
    using u(3) i by (simp add: loopUpdate_fields)
  show ?thesis
  proof (cases "matchAt activeSessions h ?order i")
    case None
    then show ?thesis by (simp add: st matcherResult_cases rStatus_def)
  next
    case (Some x)
    then obtain a strong where a: "matchAt activeSessions h ?order i = Some (a, strong)"
      by (cases x) auto
    have "a \<in> set activeSessions" using matchAt_fresh(1) [OF a i] .
    then have "hasSpinner a = hasSpinnerIndicator (tabTitle a)" using wf by blast
    then show ?thesis using a by (simp add: st matcherResult_cases rStatus_def)
  qed
qed

text \<open>An instance of C4, on the snapshot that the provider collects from \<open>exKitty\<close>:
  session 0 is weakly matched to window 8, whose title has no indicator, session 1 to
  window 7, whose title begins with a spinner, session 2 to none.\<close>

theorem status_follows_busy_indicator_witness:
  "collectActive exKitty = [exWin7, exWin8]
   \<and> matchAt (collectActive exKitty) exHeap (processingOrder [0, 1, 2] (\<lambda>_. None) exHeap) 0
       = Some (exWin8, False)
   \<and> matchAt (collectActive exKitty) exHeap (processingOrder [0, 1, 2] (\<lambda>_. None) exHeap) 1
       = Some (exWin7, True)
   \<and> matchAt (collectActive exKitty) exHeap (processingOrder [0, 1, 2] (\<lambda>_. None) exHeap) 2 = None
   \<and> hasSpinnerIndicator (tabTitle exWin7)
   \<and> map uStatus
         (fst (fst (computeStatusesInternal [0, 1, 2] False (collectActive exKitty) (\<lambda>_. None) exHeap)))
       = [StatusWaiting, StatusRunning, StatusIdle]
   \<and> uStatus
         (fst (fst (computeStatusesInternal [0, 1, 2] False (collectActive exKitty) (\<lambda>_. None) exHeap)) ! 1)
       = StatusRunning"
proof -
  let ?ws = "collectActive exKitty"
  let ?r = "computeStatusesInternal [0, 1, 2] False ?ws (\<lambda>_. None) exHeap"
  let ?order = "processingOrder [0, 1, 2] (\<lambda>_. None) exHeap"
  note c = exKitty_collect
  have m0: "matchAt ?ws exHeap ?order 0 = Some (exWin8, False)"
    and m1: "matchAt ?ws exHeap ?order 1 = Some (exWin7, True)"
    and m2: "matchAt ?ws exHeap ?order 2 = None"
    unfolding c by (simp_all add: trace_defs pass_defs ex_defs)
  have v: "map uStatus (fst (fst ?r)) = [StatusWaiting, StatusRunning, StatusIdle]"
    unfolding c by (simp add: pass_defs ex_defs)
  then have len: "1 < length (fst (fst ?r))"
    by (metis length_map length_Cons list.size(3) lessI One_nat_def Suc_lessD Suc_less_eq)
  have b: "hasSpinnerIndicator (tabTitle exWin7)"
    by (simp add: ex_defs hasSpinnerIndicator_def)
  have "uStatus (fst (fst ?r) ! 1) = StatusRunning \<longleftrightarrow>
          (\<exists>a strong. matchAt ?ws exHeap ?order 1 = Some (a, strong)
             \<and> hasSpinnerIndicator (tabTitle a))"
    using status_follows_busy_indicator
            [where sessions = "[0, 1, 2]" and aggressive = False
               and activeSessions = "collectActive exKitty" and stat = "\<lambda>_. None"
               and h = exHeap and osWindows = exKitty and i = 1,
             OF result_split refl len]
    by blast
  then have "uStatus (fst (fst ?r) ! 1) = StatusRunning"
    using m1 b by blast
  with c m0 m1 m2 b v show ?thesis by simp
qed

section \<open>A stale stored handle (C5)\<close>

text \<open>
  C5. A session with a non-zero stored window id whose window (the first of the snapshot
  with that id) is already claimed, or carries an explicit session id other than the
  session's: the stored-handle tier matches nothing, and the matcher returns what the
  explicit-session-id tier and then the working-directory tier give, claiming only the
  window one of them matches; if neither matches, the matcher returns handle 0 and the
  update that the loop appends has status Idle.
\<close>

theorem stored_tier_miss_falls_through:
  assumes "KittyWindowID (h s) \<noteq> 0"
    and "find (\<lambda>a. windowID a = KittyWindowID (h s)) activeSessions = Some w"
    and "matchedWindows (windowID w)
         \<or> (sessionID w \<noteq> [] \<and> sessionID w \<noteq> ClaudeSessionID (h s))"
  shows "tierStored (h s) activeSessions matchedWindows = None
       \<and> detectSessionStatus s activeSessions matchedWindows h =
           (case tierResume (h s) activeSessions matchedWindows of
              Some a \<Rightarrow>
                ((if hasSpinner a then StatusRunning else StatusWaiting, tabTitle a, windowID a, True),
                 matchedWindows(windowID a := True), h)
            | None \<Rightarrow>
                (case tierPath (h s) activeSessions matchedWindows of
                   Some a \<Rightarrow>
                     ((if hasSpinner a then StatusRunning else StatusWaiting, tabTitle a, windowID a,
                       False),
                      matchedWindows(windowID a := True), h)
                 | None \<Rightarrow> ((StatusIdle, [], 0, False), matchedWindows, h)))
       \<and> (tierResume (h s) activeSessions matchedWindows = None
            \<and> tierPath (h s) activeSessions matchedWindows = None \<longrightarrow>
            rWindowID (fst (detectSessionStatus s activeSessions matchedWindows h)) = 0
            \<and> uStatus (last (fst (stepSession aggressive activeSessions s
                                    (updates, namesChanged, anyChanged, matchedWindows, h))))
                = StatusIdle)"
proof -
  have t1: "tierStored (h s) activeSessions matchedWindows = None"
    using assms(2,3) by (auto simp: tierStored_def matchByWindowID_find)
  then have d: "detectSessionStatus s activeSessions matchedWindows h =
           (case tierResume (h s) activeSessions matchedWindows of
              Some a \<Rightarrow>
                ((if hasSpinner a then StatusRunning else StatusWaiting, tabTitle a, windowID a, True),
                 matchedWindows(windowID a := True), h)
            | None \<Rightarrow>
                (case tierPath (h s) activeSessions matchedWindows of
                   Some a \<Rightarrow>
                     ((if hasSpinner a then StatusRunning else StatusWaiting, tabTitle a, windowID a,
                       False),
                      matchedWindows(windowID a := True), h)
                 | None \<Rightarrow> ((StatusIdle, [], 0, False), matchedWindows, h)))"
    by (simp add: detect_cases matchWindow_def split: option.splits)
  have "uStatus (last (fst (stepSession aggressive activeSessions s
                              (updates, namesChanged, anyChanged, matchedWindows, h))))
          = rStatus (fst (detectSessionStatus s activeSessions matchedWindows h))"
    by (subst stepSession_eq) (simp add: loopUpdate_fields)
  then show ?thesis using t1 d by (simp add: rWindowID_def rStatus_def)
qed

text \<open>An instance of C5: session 0 stores window 7, which now runs session \<open>bb\<close>, and no
  other window is open.\<close>

theorem stored_tier_miss_falls_through_witness:
  "KittyWindowID (exHeap 0) \<noteq> 0
   \<and> find (\<lambda>a. windowID a = KittyWindowID (exHeap 0)) [exWin7] = Some exWin7
   \<and> sessionID exWin7 \<noteq> [] \<and> sessionID exWin7 \<noteq> ClaudeSessionID (exHeap 0)
   \<and> tierResume (exHeap 0) [exWin7] (\<lambda>_. False) = None
   \<and> tierPath (exHeap 0) [exWin7] (\<lambda>_. False) = None
   \<and> tierStored (exHeap 0) [exWin7] (\<lambda>_. False) = None
   \<and> detectSessionStatus 0 [exWin7] (\<lambda>_. False) exHeap
       = ((StatusIdle, [], 0, False), (\<lambda>_. False), exHeap)
   \<and> uStatus (last (fst (stepSession False [exWin7] 0 ([], False, False, (\<lambda>_. False), exHeap))))
       = StatusIdle"
proof -
  have 1: "KittyWindowID (exHeap 0) \<noteq> 0"
    and 2: "find (\<lambda>a. windowID a = KittyWindowID (exHeap 0)) [exWin7] = Some exWin7"
    and 3: "sessionID exWin7 \<noteq> [] \<and> sessionID exWin7 \<noteq> ClaudeSessionID (exHeap 0)"
    and 4: "tierResume (exHeap 0) [exWin7] (\<lambda>_. False) = None"
    and 5: "tierPath (exHeap 0) [exWin7] (\<lambda>_. False) = None"
    by (simp_all add: pass_defs ex_defs)
  from 3 have d3: "(\<lambda>_. False) (windowID exWin7)
         \<or> (sessionID exWin7 \<noteq> [] \<and> sessionID exWin7 \<noteq> ClaudeSessionID (exHeap 0))"
    by blast
  note t = stored_tier_miss_falls_through
             [where h = exHeap and s = 0 and activeSessions = "[exWin7]" and w = exWin7
                and matchedWindows = "\<lambda>_. False" and aggressive = False and updates = "[]"
                and namesChanged = False and anyChanged = False, OF 1 2 d3]
  from t 4 5 1 2 3 show ?thesis by (simp add: rWindowID_def)
qed

section \<open>Locked names (C6)\<close>

text \<open>
  C6. The name of a session whose \<^verbatim>\<open>Renamed\<close> flag is set is not to be overwritten by a
  pass and the application of its updates. The pass does its part: in either mode the
  update of such a session has an empty name (\<open>locked_update_unnamed\<close>), and
  \<^verbatim>\<open>ApplyStatusUpdates\<close> leaves a name alone when the update it finds under the session's
  id has an empty name (\<open>apply_keeps_unnamed\<close>). But \<^verbatim>\<open>ApplyStatusUpdates\<close> finds
  updates by Claude session id and never reads \<^verbatim>\<open>Renamed\<close>. Below, two sessions have
  the id \<open>ab\<close> and the renamed one is the more recently active; the pass gives it an
  update without a name and the other one the name \<open>i\<close> of window 8;
  \<^verbatim>\<open>ApplyStatusUpdates\<close> finds the second update under the id of both, and the name
  \<open>M\<close> of the renamed session becomes \<open>i\<close>.
\<close>

theorem locked_name_overwritten:
  "Renamed (exHeapShared 0)
   \<and> Name (exHeapShared 0) = [0x4D]
   \<and> map uSessionID (fst (fst (ComputeStatuses [0, 1] [exWin8] exStat exHeapShared)))
       = [''ab'', ''ab'']
   \<and> map uName (fst (fst (ComputeStatuses [0, 1] [exWin8] exStat exHeapShared)))
       = [[], [0x69]]
   \<and> Name (snd (RefreshStatuses [0, 1] [exWin8] exStat exHeapShared) 0) = [0x69]"
  by (simp add: RefreshStatuses_def ApplyStatusUpdates_def applyToSession_def buildUpdateMap_def
        buildClaimedWindows_def exHeapShared_def exStat_def pass_defs ex_defs)

section \<open>Weak matches (C7)\<close>

text \<open>
  C7. When the \<open>i\<close>-th session of a pass is matched by the working-directory tier only
  (the first two tiers match nothing): in a normal pass its update has an empty name and
  the session's stored window id; in an aggressive pass its update carries the matched
  window's id, and the cleaned title as name whenever that is non-empty, differs from the
  session's name, and the session is not renamed.
\<close>

theorem weak_match_update:
  assumes "computeStatusesInternal sessions aggressive activeSessions stat h
             = ((updates, live, namesChanged, anyChanged), h')"
    and "i < length updates"
    and "tierStored (h (processingOrder sessions stat h ! i)) activeSessions
           (claimedBefore activeSessions h (processingOrder sessions stat h) i) = None"
    and "tierResume (h (processingOrder sessions stat h ! i)) activeSessions
           (claimedBefore activeSessions h (processingOrder sessions stat h) i) = None"
    and "tierPath (h (processingOrder sessions stat h ! i)) activeSessions
           (claimedBefore activeSessions h (processingOrder sessions stat h) i) = Some a"
  shows "(\<not> aggressive \<longrightarrow>
            uName (updates ! i) = []
            \<and> uKittyWindowID (updates ! i) = KittyWindowID (h (processingOrder sessions stat h ! i)))
       \<and> (aggressive \<longrightarrow>
            uKittyWindowID (updates ! i) = windowID a
            \<and> uName (updates ! i) =
                (if tabTitle a \<noteq> [] \<and> \<not> Renamed (h (processingOrder sessions stat h ! i))
                      \<and> cleanClaudeTitle (tabTitle a) \<noteq> []
                      \<and> cleanClaudeTitle (tabTitle a) \<noteq> Name (h (processingOrder sessions stat h ! i))
                 then cleanClaudeTitle (tabTitle a) else []))"
proof -
  let ?order = "processingOrder sessions stat h"
  note u = pass_unroll [OF assms(1)]
  have i: "i < length ?order" using assms(2) u(1) by simp
  have "matchAt activeSessions h ?order i = Some (a, False)"
    using assms(3,4,5) by (simp add: matchAt_def weak_match_iff)
  then have r: "matcherResult activeSessions h ?order i =
      (if hasSpinner a then StatusRunning else StatusWaiting, tabTitle a, windowID a, False)"
    by (simp add: matcherResult_cases)
  have "updates ! i = loopUpdate aggressive (h (?order ! i)) (matcherResult activeSessions h ?order i)"
    using u(3) i by simp
  then show ?thesis
    by (simp add: r loopUpdate_fields loopUpdate_handle rStrong_def rTitle_def rWindowID_def)
qed

text \<open>An instance of C7: session 0 is matched to window 8 by its working directory, in a
  normal and in an aggressive pass.\<close>

theorem weak_match_update_witness:
  "tierStored (exHeap 0) [exWin7, exWin8] (\<lambda>_. False) = None
   \<and> tierResume (exHeap 0) [exWin7, exWin8] (\<lambda>_. False) = None
   \<and> tierPath (exHeap 0) [exWin7, exWin8] (\<lambda>_. False) = Some exWin8
   \<and> uName (fst (fst (computeStatusesInternal [0, 1] False [exWin7, exWin8] (\<lambda>_. None) exHeap)) ! 0) = []
   \<and> uKittyWindowID (fst (fst (computeStatusesInternal [0, 1] False [exWin7, exWin8] (\<lambda>_. None) exHeap)) ! 0)
       = 7
   \<and> uKittyWindowID (fst (fst (computeStatusesInternal [0, 1] True [exWin7, exWin8] (\<lambda>_. None) exHeap)) ! 0)
       = 8
   \<and> uName (fst (fst (computeStatusesInternal [0, 1] True [exWin7, exWin8] (\<lambda>_. None) exHeap)) ! 0)
       = [0x69]"
proof -
  let ?n = "computeStatusesInternal [0, 1] False [exWin7, exWin8] (\<lambda>_. None) exHeap"
  let ?a = "computeStatusesInternal [0, 1] True [exWin7, exWin8] (\<lambda>_. None) exHeap"
  have o: "processingOrder [0, 1] (\<lambda>_. None) exHeap ! 0 = 0"
    and c: "claimedBefore [exWin7, exWin8] exHeap (processingOrder [0, 1] (\<lambda>_. None) exHeap) 0
              = (\<lambda>_. False)"
    by (simp_all add: trace_defs pass_defs ex_defs)
  have t1: "tierStored (exHeap 0) [exWin7, exWin8] (\<lambda>_. False) = None"
    and t2: "tierResume (exHeap 0) [exWin7, exWin8] (\<lambda>_. False) = None"
    and t3: "tierPath (exHeap 0) [exWin7, exWin8] (\<lambda>_. False) = Some exWin8"
    by (simp_all add: pass_defs ex_defs)
  have ln: "0 < length (fst (fst ?n))" and la: "0 < length (fst (fst ?a))"
    using pass_unroll(1) [OF result_split, of "[0, 1]" _ "[exWin7, exWin8]" "\<lambda>_. None" exHeap]
    by (simp_all add: trace_defs pass_defs ex_defs)
  have n: "uName (fst (fst ?n) ! 0) = [] \<and> uKittyWindowID (fst (fst ?n) ! 0) = 7"
    using weak_match_update [OF result_split ln, of exWin8] o c t1 t2 t3
    by (simp add: ex_defs)
  have a: "uKittyWindowID (fst (fst ?a) ! 0) = 8 \<and> uName (fst (fst ?a) ! 0) = [0x69]"
    using weak_match_update [OF result_split la, of exWin8] o c t1 t2 t3
    by (simp add: ex_defs cleanClaudeTitle_def TrimSpace_def IsSpace_def Let_def)
  from t1 t2 t3 n a show ?thesis by simp
qed

section \<open>Clearing a stale handle (C8)\<close>

text \<open>
  C8. A session of the list that has no update in the applied list (no update carries its
  session id), that holds a non-zero window id, and whose window id the claims map of
  \<^verbatim>\<open>ApplyStatusUpdates\<close> assigns to another session id, has window id 0 afterwards, and
  both returned flags are true. (The claims map holds the window ids of the updates that
  carry a positive one, see \<open>buildClaimedWindows_dom\<close>.)
\<close>

theorem stale_handle_cleared:
  assumes "ApplyStatusUpdates sessions updates h = ((changed, needsSave), h')"
    and "s \<in> set sessions"
    and "\<forall>u\<in>set updates. uSessionID u \<noteq> ClaudeSessionID (h s)"
    and "KittyWindowID (h s) \<noteq> 0"
    and "buildClaimedWindows updates (KittyWindowID (h s)) = Some claimer"
    and "claimer \<noteq> ClaudeSessionID (h s)"
  shows "KittyWindowID (h' s) = 0 \<and> changed \<and> needsSave"
proof -
  have um: "buildUpdateMap updates (ClaudeSessionID (h s)) = None"
    using assms(3) by (simp add: buildUpdateMap_None)
  have pos: "0 < KittyWindowID (h s)"
    using buildClaimedWindows_Some [OF assms(5)] by simp
  have "foldl (\<lambda>st q. applyToSession (buildUpdateMap updates) (buildClaimedWindows updates) q st)
          (False, False, h) sessions = (changed, needsSave, h')"
    using assms(1) by (simp add: ApplyStatusUpdates_def Let_def split: prod.splits)
  from apply_loop_clears [OF um pos assms(5,6,2) this] show ?thesis .
qed

text \<open>An instance of C8: session A holds window 5 and has no update; the update of session B
  claims window 5.\<close>

theorem stale_handle_cleared_witness:
  "uSessionID exUpdateB \<noteq> ClaudeSessionID (exHeap5 0)
   \<and> KittyWindowID (exHeap5 0) = 5
   \<and> buildClaimedWindows [exUpdateB] 5 = Some ''B''
   \<and> KittyWindowID (snd (ApplyStatusUpdates [0, 1] [exUpdateB] exHeap5) 0) = 0
   \<and> snd (fst (ApplyStatusUpdates [0, 1] [exUpdateB] exHeap5))
   \<and> fst (fst (ApplyStatusUpdates [0, 1] [exUpdateB] exHeap5))
   \<and> KittyWindowID (snd (ApplyStatusUpdates [0, 1] [exUpdateB] exHeap5) 1) = 5"
proof -
  let ?r = "ApplyStatusUpdates [0, 1] [exUpdateB] exHeap5"
  have 1: "\<forall>u\<in>set [exUpdateB]. uSessionID u \<noteq> ClaudeSessionID (exHeap5 0)"
    and 2: "KittyWindowID (exHeap5 0) = 5"
    and 3: "buildClaimedWindows [exUpdateB] 5 = Some ''B''"
    and 4: "''B'' \<noteq> ClaudeSessionID (exHeap5 0)"
    by (simp_all add: exUpdateB_def exHeap5_def zeroSession_def buildClaimedWindows_def)
  have e: "?r = ((fst (fst ?r), snd (fst ?r)), snd ?r)" by simp
  have "KittyWindowID (snd ?r 0) = 0 \<and> fst (fst ?r) \<and> snd (fst ?r)"
    using stale_handle_cleared [OF e, of 0 "''B''"] 1 2 3 4 by simp
  moreover have "KittyWindowID (snd ?r 1) = 5"
    by (simp add: ApplyStatusUpdates_def applyToSession_def buildUpdateMap_def
          buildClaimedWindows_def exUpdateB_def exHeap5_def zeroSession_def Let_def)
  ultimately show ?thesis using 1 2 3 by simp
qed

section \<open>Claiming a window (C9)\<close>

text \<open>
  C9. \<^verbatim>\<open>ClaimWindowID\<close> with a window id that is not positive returns false and leaves the
  heap as it is. With a positive one it returns whether some other session of the list
  held the window id, sets the window id of each such session to 0 and that of the
  claiming session to the claimed one, and changes nothing else; what it returns does not
  depend on the claiming session's own fields.
\<close>

theorem ClaimWindowID_effect:
  "(winID \<le> 0 \<longrightarrow> ClaimWindowID sessions claimingSession winID h = (False, h))
   \<and> (winID > 0 \<longrightarrow>
        ClaimWindowID sessions claimingSession winID h =
          ((\<exists>p\<in>set sessions. p \<noteq> claimingSession \<and> KittyWindowID (h p) = winID),
           (\<lambda>p. if p = claimingSession then (h p)\<lparr>KittyWindowID := winID\<rparr>
                else if p \<in> set sessions \<and> KittyWindowID (h p) = winID
                then (h p)\<lparr>KittyWindowID := 0\<rparr>
                else h p)))
   \<and> fst (ClaimWindowID sessions claimingSession winID (h(claimingSession := x)))
       = fst (ClaimWindowID sessions claimingSession winID h)"
proof (cases "winID \<le> 0")
  case True
  then show ?thesis by (simp add: ClaimWindowID_def)
next
  case False
  then have w: "winID \<noteq> 0" by simp
  have eq: "ClaimWindowID sessions claimingSession winID g =
          ((\<exists>p\<in>set sessions. p \<noteq> claimingSession \<and> KittyWindowID (g p) = winID),
           (\<lambda>p. if p = claimingSession then (g p)\<lparr>KittyWindowID := winID\<rparr>
                else if p \<in> set sessions \<and> KittyWindowID (g p) = winID
                then (g p)\<lparr>KittyWindowID := 0\<rparr>
                else g p))" for g
    using False by (simp add: ClaimWindowID_def claim_loop [OF w]) (auto simp: fun_eq_iff)
  show ?thesis using False by (auto simp: eq)
qed


text \<open>An instance of C9: session A (address 0) holds window 42 and session B (address 1)
  claims it; claiming window 0 or \<open>-1\<close> does nothing.\<close>

theorem ClaimWindowID_effect_witness:
  "(0::int) < 42
   \<and> fst (ClaimWindowID [0, 1] 1 42 exHeap42) = True
   \<and> KittyWindowID (snd (ClaimWindowID [0, 1] 1 42 exHeap42) 0) = 0
   \<and> KittyWindowID (snd (ClaimWindowID [0, 1] 1 42 exHeap42) 1) = 42
   \<and> ClaimWindowID [0, 1] 1 0 exHeap42 = (False, exHeap42)
   \<and> ClaimWindowID [0, 1] 1 (- 1) exHeap42 = (False, exHeap42)"
  using ClaimWindowID_effect [of 42 "[0, 1]" 1 exHeap42]
    ClaimWindowID_effect [of 0 "[0, 1]" 1 exHeap42]
    ClaimWindowID_effect [of "- 1" "[0, 1]" 1 exHeap42]
  by (simp add: exHeap42_def zeroSession_def)


section \<open>The computation phase leaves the sessions alone (C10)\<close>

text \<open>
  C10. The heap of session objects after \<^verbatim>\<open>ComputeStatuses\<close> or
  \<^verbatim>\<open>ComputeStatusesAggressive\<close> is the heap before the call: no field of any session
  changes.
\<close>

theorem compute_phase_keeps_sessions:
  "snd (ComputeStatuses sessions activeSessions stat h) = h
   \<and> snd (ComputeStatusesAggressive sessions activeSessions stat h) = h"
proof -
  have "snd (computeStatusesInternal sessions aggressive activeSessions stat h) = h" for aggressive
    using pass_unroll(2) [of sessions aggressive activeSessions stat h]
    by (metis prod.collapse)
  then show ?thesis by (simp add: ComputeStatuses_def ComputeStatusesAggressive_def)
qed


theorem compute_phase_keeps_sessions_witness:
  "snd (ComputeStatuses [0, 1] [exWin7, exWin8] (\<lambda>_. None) exHeap) = exHeap
   \<and> snd (ComputeStatusesAggressive [0, 1] [exWin7, exWin8] (\<lambda>_. None) exHeap) = exHeap"
  using compute_phase_keeps_sessions [of "[0, 1]" "[exWin7, exWin8]" "\<lambda>_. None" exHeap] .

end
